theory Spec2Isabelle
  imports Complex_Main "HOL-Library.Multiset"
begin

section \<open>Numbers\<close>

text \<open>
  The program is JavaScript; its only numeric type is the IEEE 754 double. Most of this
  development reads a JavaScript number as a mathematical real: \<open>Math.exp\<close> is
  \<open>exp\<close>, \<open>Math.log10\<close> is \<open>log 10\<close> on positive arguments, \<open>Math.pow(10, x)\<close> is
  \<open>10 powr x\<close>, \<open>Math.abs\<close> is \<open>abs\<close>, and \<open>Math.round\<close> (round half up) is
  \<open>round\<close>, which HOL defines as \<open>\<lfloor>x + 1/2\<rfloor>\<close>. Where the source divides zero by
  zero (the JavaScript value \<open>NaN\<close>) the model returns \<open>None\<close> instead of HOL's
  \<open>0 / 0 = 0\<close>.

  Two results of the program are discrete and can change with the last bit of a double:
  the grade, which compares the average error with the thresholds 0.01, 0.05, 0.10 and
  0.20, and the whole number of Hz that \<open>logToLinear\<close> rounds to. For these the model
  keeps the rounding of the arithmetic: \<open>linearToLog\<close>, \<open>logToLinear\<close> and the
  functions whose names end in \<open>D\<close> (the scorer in double arithmetic) round the result
  of every operation of the source to a double.
\<close>

subsection \<open>Rounding to a double\<close>

text \<open>
  \<open>double x\<close> is the double nearest to the real \<open>x\<close>, a tie going to the even
  significand (the default rounding of IEEE 754): \<open>x\<close> is divided by the power of two
  that brings its magnitude between \<open>2^52\<close> and \<open>2^53\<close>, rounded to an integer, and
  multiplied back. \<open>binade x\<close> is the binary exponent of \<open>x\<close> and \<open>pow2 k\<close> is
  \<open>2^k\<close> for an integer \<open>k\<close>. The exponent is unbounded: overflow, subnormal numbers
  and the sign of zero are not modelled; the numbers of this program (frequencies,
  relative errors, scores) stay far from both ends of the exponent range of a double.

  IEEE 754 rounds sums, differences, products and quotients correctly: the result is
  \<open>double\<close> of the exact result. The library functions \<open>Math.exp\<close>, \<open>Math.log10\<close>
  and \<open>Math.pow\<close> are modelled in the same way, as \<open>double\<close> of the exact function;
  ECMAScript leaves their last bit to the implementation.
\<close>

definition pow2 :: "int \<Rightarrow> real" where
  "pow2 k = (if 0 \<le> k then 2 ^ nat k else 1 / 2 ^ nat (- k))"

definition binade :: "real \<Rightarrow> int" where
  "binade x = \<lfloor>log 2 \<bar>x\<bar>\<rfloor>"

definition roundEven :: "real \<Rightarrow> int" where
  "roundEven m =
     (if m - of_int \<lfloor>m\<rfloor> = 1 / 2
      then (if even \<lfloor>m\<rfloor> then \<lfloor>m\<rfloor> else \<lfloor>m\<rfloor> + 1)
      else round m)"

definition double :: "real \<Rightarrow> real" where
  "double x =
     (if x = 0 then 0
      else of_int (roundEven (x / pow2 (binade x - 52))) * pow2 (binade x - 52))"

section \<open>MathUtils (src/js/quiz/QuizManager.js)\<close>

text \<open>\<open>MathUtils.calculateError(actual, answer)\<close>: relative error, 1 when \<open>actual\<close> is 0.\<close>

definition calculateError :: "real \<Rightarrow> real \<Rightarrow> real" where
  "calculateError actual answer =
     (if actual = 0 then 1 else \<bar>actual - answer\<bar> / actual)"

text \<open>
  \<open>MathUtils.linearToLog(value)\<close>: \<open>Math.log10(Math.max(20, Math.min(20000, value)))\<close>,
  in double arithmetic. \<open>Math.max\<close> and \<open>Math.min\<close> are exact.
\<close>

definition linearToLog :: "real \<Rightarrow> real" where
  "linearToLog v = double (log 10 (max 20 (min 20000 v)))"

text \<open>
  \<open>MathUtils.logToLinear(logValue)\<close>: \<open>Math.round(Math.pow(10, logValue))\<close>, in double
  arithmetic. \<open>Math.round\<close> is exact.
\<close>

definition logToLinear :: "real \<Rightarrow> real" where
  "logToLinear logValue = of_int (round (double (10 powr logValue)))"

text \<open>\<open>MathUtils.lerp(a, b, t)\<close> and \<open>MathUtils.dbToGain(db)\<close>.\<close>

definition lerp :: "real \<Rightarrow> real \<Rightarrow> real \<Rightarrow> real" where
  "lerp a b t = a + (b - a) * t"

definition dbToGain :: "real \<Rightarrow> real" where
  "dbToGain db = 10 powr (db / 20)"

section \<open>ScoreCalculator (src/js/app.js)\<close>

text \<open>
  The five grade strings of the source, best first: \<open>kanpeki!\<close> (perfect),
  \<open>subarashii!\<close> (excellent), \<open>yoi!\<close> (good), \<open>oshii\<close> (close) and
  \<open>you-renshuu\<close> (needs practice). The source writes them in Japanese; the
  constructors carry the names the specification gives them.
\<close>

datatype grade = Perfect | Excellent | Good | Close | NeedsPractice

text \<open>The object \<open>calculateMultiScore\<close> returns.\<close>

record score_result =
  score :: real
  grade :: grade
  errors :: "real list"
  avgError :: real
  isCorrect :: bool

text \<open>
  The score of an average error, as \<open>calculateMultiScore\<close> (and \<open>calculateScore\<close>)
  computes it inline: \<open>k = 5\<close>, \<open>Math.round(100 * Math.exp(-k * avgError))\<close>, then
  \<open>Math.max(0, Math.min(100, score))\<close>.
\<close>

definition scoreOfError :: "real \<Rightarrow> real" where
  "scoreOfError e =
     (let k = 5;
          s = of_int (round (100 * exp (- k * e)))
      in max 0 (min 100 s))"

text \<open>The grade of an average error: the source's \<open>if / else if\<close> chain, in its order.\<close>

definition gradeOfError :: "real \<Rightarrow> grade" where
  "gradeOfError e =
     (if e < 0.01 then Perfect
      else if e < 0.05 then Excellent
      else if e < 0.10 then Good
      else if e < 0.20 then Close
      else NeedsPractice)"

text \<open>
  The first loop of \<open>calculateMultiScore\<close>:
  \<open>while (userAnswers.length < actualFreqs.length) userAnswers.push(1000)\<close>.
  It mutates the caller's array; the model returns the array after the loop.
\<close>

function padAnswers :: "real list \<Rightarrow> real list \<Rightarrow> real list" where
  "padAnswers actualFreqs userAnswers =
     (if length userAnswers < length actualFreqs
      then padAnswers actualFreqs (userAnswers @ [1000])
      else userAnswers)"
  by pat_completeness auto
termination
  by (relation "measure (\<lambda>(a, u). length a - length u)") auto

declare padAnswers.simps [simp del]

text \<open>
  \<open>[...userAnswers].sort((a, b) => a - b)\<close>: a numeric ascending sort of a copy, taken
  only when \<open>sortAnswers\<close> is set and the (padded) array has exactly 3 elements.
\<close>

definition sortIfAdvanced :: "bool \<Rightarrow> real list \<Rightarrow> real list" where
  "sortIfAdvanced sortAnswers userAnswers =
     (if sortAnswers \<and> length userAnswers = 3 then sort userAnswers else userAnswers)"

text \<open>
  \<open>actualFreqs.map((actual, index) => calculateError(actual, userAnswers[index]))\<close>.
  After padding \<open>userAnswers\<close> is at least as long as \<open>actualFreqs\<close>, so every index is
  in range and the positional pairing is \<open>zip\<close>; surplus answers are never read.
\<close>

definition pairErrors :: "real list \<Rightarrow> real list \<Rightarrow> real list" where
  "pairErrors actualFreqs userAnswers =
     map (\<lambda>(actual, answer). calculateError actual answer) (zip actualFreqs userAnswers)"

text \<open>
  \<open>errors.reduce((sum, e) => sum + e, 0) / errors.length\<close>. For an empty array this is
  \<open>0 / 0\<close>, the value \<open>NaN\<close>: \<open>None\<close>.
\<close>

definition mean :: "real list \<Rightarrow> real option" where
  "mean es = (if es = [] then None else Some (foldl (+) 0 es / real (length es)))"

text \<open>
  \<open>ScoreCalculator.calculateMultiScore(actualFreqs, userAnswers, sortAnswers)\<close>.
  \<open>None\<close> stands for the object the source returns when \<open>actualFreqs\<close> is empty,
  whose \<open>score\<close> and \<open>avgError\<close> are \<open>NaN\<close>. The returned \<open>errors\<close> and \<open>avgError\<close>
  are percentages (multiplied by 100); score and grade are computed from the fraction.
\<close>

definition calculateMultiScore :: "real list \<Rightarrow> real list \<Rightarrow> bool \<Rightarrow> score_result option" where
  "calculateMultiScore actualFreqs userAnswers sortAnswers =
     (let padded = padAnswers actualFreqs userAnswers;
          answers = sortIfAdvanced sortAnswers padded;
          errs = pairErrors actualFreqs answers
      in case mean errs of
           None \<Rightarrow> None
         | Some avg \<Rightarrow>
             Some \<lparr> score = scoreOfError avg,
                    grade = gradeOfError avg,
                    errors = map (\<lambda>e. e * 100) errs,
                    avgError = avg * 100,
                    isCorrect = (scoreOfError avg \<ge> 60) \<rparr>)"

text \<open>
  The scorer in double arithmetic. Each function below repeats the one of the same name
  above and rounds the result of every operation of the source: the subtraction and the
  division of \<open>calculateError\<close>, every addition of the \<open>reduce\<close> and the division by
  the length, the product \<open>-k * avgError\<close>, \<open>Math.exp\<close>, the product with 100, and the
  products with 100 of the returned percentages. \<open>Math.abs\<close>, \<open>Math.round\<close>,
  \<open>Math.max\<close>, \<open>Math.min\<close> and the comparisons are exact. The literals \<open>0.01\<close>,
  \<open>0.05\<close>, \<open>0.10\<close> and \<open>0.20\<close> of the source are the doubles nearest to these
  fractions.
\<close>

definition calculateErrorD :: "real \<Rightarrow> real \<Rightarrow> real" where
  "calculateErrorD actual answer =
     (if actual = 0 then 1 else double (\<bar>double (actual - answer)\<bar> / actual))"

definition pairErrorsD :: "real list \<Rightarrow> real list \<Rightarrow> real list" where
  "pairErrorsD actualFreqs userAnswers =
     map (\<lambda>(actual, answer). calculateErrorD actual answer) (zip actualFreqs userAnswers)"

definition meanD :: "real list \<Rightarrow> real option" where
  "meanD es =
     (if es = [] then None
      else Some (double (foldl (\<lambda>s e. double (s + e)) 0 es / real (length es))))"

definition scoreOfErrorD :: "real \<Rightarrow> real" where
  "scoreOfErrorD e =
     (let k = 5;
          s = of_int (round (double (100 * double (exp (double (- k * e))))))
      in max 0 (min 100 s))"

definition gradeOfErrorD :: "real \<Rightarrow> grade" where
  "gradeOfErrorD e =
     (if e < double 0.01 then Perfect
      else if e < double 0.05 then Excellent
      else if e < double 0.10 then Good
      else if e < double 0.20 then Close
      else NeedsPractice)"

definition calculateMultiScoreD :: "real list \<Rightarrow> real list \<Rightarrow> bool \<Rightarrow> score_result option" where
  "calculateMultiScoreD actualFreqs userAnswers sortAnswers =
     (let padded = padAnswers actualFreqs userAnswers;
          answers = sortIfAdvanced sortAnswers padded;
          errs = pairErrorsD actualFreqs answers
      in case meanD errs of
           None \<Rightarrow> None
         | Some avg \<Rightarrow>
             Some \<lparr> score = scoreOfErrorD avg,
                    grade = gradeOfErrorD avg,
                    errors = map (\<lambda>e. double (e * 100)) errs,
                    avgError = double (avg * 100),
                    isCorrect = (scoreOfErrorD avg \<ge> 60) \<rparr>)"



subsection \<open>Session aggregation\<close>

text \<open>
  The five reporting bands, the strings \<open>'ultraLow'\<close>, \<open>'low'\<close>, \<open>'mid'\<close>,
  \<open>'highMid'\<close> and \<open>'high'\<close> of the source.
\<close>

datatype rangeName = UltraLow | Low | Mid | HighMid | High

text \<open>\<open>ScoreCalculator.getFrequencyRange(frequency)\<close>.\<close>

definition getFrequencyRange :: "real \<Rightarrow> rangeName" where
  "getFrequencyRange frequency =
     (if frequency < 100 then UltraLow
      else if frequency < 500 then Low
      else if frequency < 2000 then Mid
      else if frequency < 8000 then HighMid
      else High)"

text \<open>
  An answer record, with the fields \<open>calculateSessionScore\<close> reads. \<open>actualFreq\<close> is an
  array or a single number (the source tests \<open>Array.isArray\<close>). \<open>score\<close>, \<open>avgError\<close>
  and \<open>error\<close> may be missing (\<open>undefined\<close>) or \<open>NaN\<close>: \<open>None\<close>.
\<close>

datatype freqField = Scalar real | Array "real list"

record answer_record =
  q_actualFreq :: freqField
  q_score :: "real option"
  q_avgError :: "real option"
  q_error :: "real option"

text \<open>
  JavaScript's \<open>a || b\<close> on numbers: \<open>a\<close> when \<open>a\<close> is truthy, else \<open>b\<close>. A number is
  falsy when it is \<open>undefined\<close>, \<open>NaN\<close> or 0.
\<close>

definition truthy :: "real option \<Rightarrow> bool" where
  "truthy a = (case a of None \<Rightarrow> False | Some v \<Rightarrow> v \<noteq> 0)"

definition orElse :: "real option \<Rightarrow> real option \<Rightarrow> real option" where
  "orElse a b = (if truthy a then a else b)"

text \<open>\<open>q.score || 0\<close> and \<open>q.avgError || q.error || 0\<close>, as numbers.\<close>

definition scoreOr0 :: "answer_record \<Rightarrow> real" where
  "scoreOr0 q = the (orElse (q_score q) (Some 0))"

definition errorOr0 :: "answer_record \<Rightarrow> real" where
  "errorOr0 q = the (orElse (orElse (q_avgError q) (q_error q)) (Some 0))"

text \<open>\<open>Array.isArray(q.actualFreq) ? q.actualFreq : [q.actualFreq]\<close>.\<close>

definition freqsOf :: "answer_record \<Rightarrow> real list" where
  "freqsOf q = (case q_actualFreq q of Array fs \<Rightarrow> fs | Scalar f \<Rightarrow> [f])"

text \<open>One entry of \<open>rangeStats\<close>: \<open>{ totalScore, count }\<close>.\<close>

record range_stat =
  bandTotal :: real
  bandCount :: nat

text \<open>
  The body of the inner \<open>forEach\<close>: the record's score is added to the band of the
  frequency and the band's count goes up by one.
\<close>

definition addFrequency :: "real \<Rightarrow> (rangeName \<Rightarrow> range_stat) \<Rightarrow> real \<Rightarrow> (rangeName \<Rightarrow> range_stat)" where
  "addFrequency s stats freq =
     (let range = getFrequencyRange freq
      in stats(range := \<lparr> bandTotal = bandTotal (stats range) + s,
                           bandCount = bandCount (stats range) + 1 \<rparr>))"

text \<open>The body of the outer \<open>forEach\<close>, and the two loops from the initial table.\<close>

definition addQuestion :: "(rangeName \<Rightarrow> range_stat) \<Rightarrow> answer_record \<Rightarrow> (rangeName \<Rightarrow> range_stat)" where
  "addQuestion stats q = foldl (addFrequency (scoreOr0 q)) stats (freqsOf q)"

definition rangeStats :: "answer_record list \<Rightarrow> rangeName \<Rightarrow> range_stat" where
  "rangeStats questions =
     foldl addQuestion (\<lambda>_. \<lparr> bandTotal = 0, bandCount = 0 \<rparr>) questions"

text \<open>
  The object \<open>calculateSessionScore\<close> returns. The source formats the average error
  with \<open>toFixed(2)\<close>; the model keeps the number that is formatted, \<open>None\<close> when it is
  \<open>NaN\<close> (an empty list of records: \<open>0 / 0\<close>).
\<close>

record session_score =
  totalScore :: real
  sessionAvgError :: "real option"
  rangeAccuracy :: "rangeName \<Rightarrow> real"

text \<open>\<open>ScoreCalculator.calculateSessionScore(questions)\<close>.\<close>

definition calculateSessionScore :: "answer_record list \<Rightarrow> session_score" where
  "calculateSessionScore questions =
     (let total = foldl (\<lambda>sum q. sum + scoreOr0 q) 0 questions;
          avg = (if questions = [] then None
                 else Some (foldl (\<lambda>sum q. sum + errorOr0 q) 0 questions
                            / real (length questions)));
          stats = rangeStats questions
      in \<lparr> totalScore = total,
           sessionAvgError = avg,
           rangeAccuracy = (\<lambda>b. if bandCount (stats b) > 0
                                 then bandTotal (stats b) / real (bandCount (stats b)) / 100
                                 else 0) \<rparr>)"

text \<open>
  The scores attributed to a band, as the specification words it: each record's score,
  once for every frequency of its \<open>actualFreq\<close> that falls in the band.
\<close>

definition attributed :: "rangeName \<Rightarrow> answer_record list \<Rightarrow> real list" where
  "attributed b questions =
     concat (map (\<lambda>q. map (\<lambda>_. scoreOr0 q)
                          (filter (\<lambda>f. getFrequencyRange f = b) (freqsOf q))) questions)"

section \<open>EqualLoudness (src/unnamed/part_000)\<close>

text \<open>
  One curve of \<open>data/equal_loudness_curves.json\<close> (a file that is not among the
  sources; the curve is a parameter). A curve object maps frequency strings to dB
  values; the model keeps its entries as pairs of the key read by \<open>parseFloat\<close> and the
  dB value, and looks a frequency point up with \<open>map_of\<close>.
\<close>

type_synonym curve = "(real \<times> real) list"

text \<open>
  The search loop of \<open>interpolateCorrection\<close>: the first \<open>i\<close> with
  \<open>freqPoints[i] <= frequency <= freqPoints[i + 1]\<close>.
\<close>

fun findBracket :: "real \<Rightarrow> real list \<Rightarrow> (real \<times> real) option" where
  "findBracket frequency (a # b # rest) =
     (if frequency \<ge> a \<and> frequency \<le> b then Some (a, b)
      else findBracket frequency (b # rest))"
| "findBracket frequency _ = None"

text \<open>
  \<open>Math.log10\<close> on a JavaScript number: \<open>NaN\<close> below zero and \<open>-Infinity\<close> at zero,
  neither of which is a real.
\<close>

definition log10 :: "real \<Rightarrow> real option" where
  "log10 x = (if x > 0 then Some (log 10 x) else None)"

text \<open>
  \<open>EqualLoudness.interpolateCorrection(frequency, curve)\<close>. \<open>None\<close> is \<open>NaN\<close>: the
  result for a curve without points (every lookup is \<open>undefined\<close>), for a lower
  point that is not positive, and for the quotient \<open>0 / 0\<close> of a bracket whose ends
  coincide.
\<close>

definition interpolateCorrection :: "real \<Rightarrow> curve \<Rightarrow> real option" where
  "interpolateCorrection frequency curve =
     (let freqPoints = sort (map fst curve)
      in if freqPoints = [] then None
         else if frequency \<le> hd freqPoints then map_of curve (hd freqPoints)
         else if frequency \<ge> last freqPoints then map_of curve (last freqPoints)
         else
           (let (lowerFreq, upperFreq) =
                  (case findBracket frequency freqPoints of
                     Some p \<Rightarrow> p
                   | None \<Rightarrow> (hd freqPoints, last freqPoints))
            in case (map_of curve lowerFreq, map_of curve upperFreq,
                     log10 frequency, log10 lowerFreq, log10 upperFreq) of
                 (Some lowerDb, Some upperDb, Some logFreq, Some logLower, Some logUpper) \<Rightarrow>
                   if logUpper - logLower = 0 then None
                   else Some (lerp lowerDb upperDb ((logFreq - logLower) / (logUpper - logLower)))
               | _ \<Rightarrow> None))"

text \<open>
  \<open>EqualLoudness.getGain(frequency, phon)\<close>. The field \<open>this.curves\<close> is a parameter:
  \<open>None\<close> while it is \<open>null\<close> (not loaded yet), otherwise the loaded object, which is
  empty after a failed fetch. \<open>phon\<close> is \<open>None\<close> for \<open>null\<close>, otherwise its string.
\<close>

definition getGain :: "(string \<rightharpoonup> curve) option \<Rightarrow> real \<Rightarrow> string option \<Rightarrow> real option" where
  "getGain curves frequency phon =
     (case curves of
        None \<Rightarrow> Some 1
      | Some cs \<Rightarrow>
          (case phon of
             None \<Rightarrow> Some 1
           | Some p \<Rightarrow>
               if p = ''off'' then Some 1
               else (case cs (p @ ''_phon'') of
                       None \<Rightarrow> Some 1
                     | Some curve \<Rightarrow> map_option dbToGain (interpolateCorrection frequency curve))))"

section \<open>QuestionGenerator (src/unnamed/part_003)\<close>

text \<open>
  \<open>Math.random()\<close> is an ambient source of numbers. The model makes it explicit: a
  source \<open>rnd\<close> gives the value of the \<open>k\<close>-th call, and every function that draws from
  it takes the index of the next call and returns the index after its last one. The
  contract of \<open>Math.random()\<close> is \<open>0 \<le> rnd k < 1\<close>.
\<close>

type_synonym random_source = "nat \<Rightarrow> real"

definition randomContract :: "random_source \<Rightarrow> bool" where
  "randomContract rnd = (\<forall>k. 0 \<le> rnd k \<and> rnd k < 1)"

text \<open>
  \<open>MathUtils.randomLogFreq(min, max)\<close> (src/js/quiz/QuizManager.js); \<open>r\<close> is the value
  its call of \<open>Math.random()\<close> returned.
\<close>

definition randomLogFreq :: "real \<Rightarrow> real \<Rightarrow> real \<Rightarrow> real" where
  "randomLogFreq mn mx r =
     (let logMin = log 10 mn;
          logMax = log 10 mx;
          logRandom = logMin + r * (logMax - logMin)
      in of_int (round (10 powr logRandom)))"

text \<open>
  \<open>MathUtils.shuffle(array)\<close>, Fisher-Yates on a copy: for \<open>i\<close> from the last index
  down to 1, \<open>j = Math.floor(Math.random() * (i + 1))\<close> and the entries at \<open>i\<close> and \<open>j\<close>
  are exchanged. Under the contract of \<open>Math.random()\<close>, \<open>j \<le> i\<close>.
\<close>

fun shuffleLoop :: "random_source \<Rightarrow> nat \<Rightarrow> 'a list \<Rightarrow> nat \<Rightarrow> 'a list \<times> nat" where
  "shuffleLoop rnd 0 result pos = (result, pos)"
| "shuffleLoop rnd (Suc i) result pos =
     (let j = nat \<lfloor>rnd pos * real (Suc i + 1)\<rfloor>
      in shuffleLoop rnd i (result[Suc i := result ! j, j := result ! Suc i]) (pos + 1))"

definition shuffle :: "random_source \<Rightarrow> 'a list \<Rightarrow> nat \<Rightarrow> 'a list \<times> nat" where
  "shuffle rnd array pos = shuffleLoop rnd (length array - 1) array pos"

text \<open>
  The table \<open>FREQUENCY_RANGES\<close>, in the order of its keys, with the fields \<open>min\<close>,
  \<open>max\<close> and \<open>count\<close> of each entry.
\<close>

record freq_range =
  rangeMin :: real
  rangeMax :: real
  rangeCount :: nat

definition FREQUENCY_RANGES :: "(string \<times> freq_range) list" where
  "FREQUENCY_RANGES =
     [(''ultraLow'',  \<lparr> rangeMin = 20,    rangeMax = 80,    rangeCount = 1 \<rparr>),
      (''low'',       \<lparr> rangeMin = 80,    rangeMax = 250,   rangeCount = 2 \<rparr>),
      (''lowMid'',    \<lparr> rangeMin = 250,   rangeMax = 500,   rangeCount = 1 \<rparr>),
      (''mid'',       \<lparr> rangeMin = 500,   rangeMax = 2000,  rangeCount = 3 \<rparr>),
      (''highMid'',   \<lparr> rangeMin = 2000,  rangeMax = 6000,  rangeCount = 2 \<rparr>),
      (''high'',      \<lparr> rangeMin = 6000,  rangeMax = 12000, rangeCount = 1 \<rparr>),
      (''ultraHigh'', \<lparr> rangeMin = 12000, rangeMax = 20000, rangeCount = 1 \<rparr>)]"

text \<open>The table \<open>DIFFICULTY\<close>.\<close>

record difficulty_config =
  freqCount :: nat
  minFreqGap :: real
  equalLoudness :: string
  stereo :: bool

definition DIFFICULTY :: "string \<rightharpoonup> difficulty_config" where
  "DIFFICULTY =
     [''easy''   \<mapsto> \<lparr> freqCount = 1, minFreqGap = 1.5,  equalLoudness = ''off'', stereo = False \<rparr>,
      ''medium'' \<mapsto> \<lparr> freqCount = 2, minFreqGap = 1.25, equalLoudness = ''off'', stereo = True \<rparr>,
      ''hard''   \<mapsto> \<lparr> freqCount = 3, minFreqGap = 1.1,  equalLoudness = ''60'',  stereo = False \<rparr>]"

text \<open>A generated question. Its \<open>stereo\<close> and \<open>equalLoudness\<close> fields copy the profile's.\<close>

record question =
  frequencies :: "real list"
  questionStereo :: bool
  waveform :: string
  duration :: real
  questionEqualLoudness :: string

text \<open>Reading a property of \<open>undefined\<close> raises a \<open>TypeError\<close>.\<close>

datatype error = TypeError

text \<open>
  \<open>ranges[Math.floor(Math.random() * ranges.length)]\<close> and the lookup of that name in
  \<open>FREQUENCY_RANGES\<close>; \<open>r\<close> is the random value. An index outside the array gives
  \<open>undefined\<close>: \<open>None\<close>.
\<close>

definition pickRange :: "real \<Rightarrow> freq_range option" where
  "pickRange r =
     (let ranges = map fst FREQUENCY_RANGES;
          i = \<lfloor>r * real (length ranges)\<rfloor>
      in if 0 \<le> i \<and> nat i < length ranges
         then map_of FREQUENCY_RANGES (ranges ! nat i)
         else None)"

text \<open>
  The two tests of the retry loop. \<open>tooClose\<close> is
  \<open>frequencies.some(f => Math.max(f, frequency) / Math.min(f, frequency) < config.minFreqGap)\<close>;
  a candidate leaves the loop through \<open>break\<close> when it is not too close and
  \<open>usedFrequencies\<close> does not have it. \<open>usedFrequencies\<close> is a set of JavaScript values:
  \<open>Some f\<close> for a number, \<open>None\<close> for \<open>undefined\<close>.
\<close>

definition tooClose :: "difficulty_config \<Rightarrow> real list \<Rightarrow> real \<Rightarrow> bool" where
  "tooClose config fs frequency =
     (\<exists>f\<in>set fs. max f frequency / min f frequency < minFreqGap config)"

definition accepted :: "difficulty_config \<Rightarrow> real list \<Rightarrow> real option set \<Rightarrow> real \<Rightarrow> bool" where
  "accepted config fs usedFrequencies frequency =
     (\<not> tooClose config fs frequency \<and> Some frequency \<notin> usedFrequencies)"

text \<open>
  The \<open>do ... while (attempts < 100)\<close> loop of \<open>generateQuestion\<close>, entered with the
  current value of \<open>attempts\<close>. It returns the frequency it leaves with. (The
  source's variable \<open>range\<close> is \<open>frange\<close> here: \<open>range\<close> is a constant of HOL.)
\<close>

function retryLoop ::
  "random_source \<Rightarrow> freq_range \<Rightarrow> difficulty_config \<Rightarrow> real list \<Rightarrow> real option set
     \<Rightarrow> nat \<Rightarrow> nat \<Rightarrow> real \<times> nat" where
  "retryLoop rnd frange config fs usedFrequencies attempts pos =
     (let frequency = randomLogFreq (rangeMin frange) (rangeMax frange) (rnd pos)
      in if accepted config fs usedFrequencies frequency then (frequency, pos + 1)
         else if attempts + 1 < 100
         then retryLoop rnd frange config fs usedFrequencies (attempts + 1) (pos + 1)
         else (frequency, pos + 1))"
  by pat_completeness auto
termination
  by (relation "measure (\<lambda>(rnd, frange, config, fs, used, attempts, pos). 100 - attempts)") auto

declare retryLoop.simps [simp del]

text \<open>
  The \<open>for\<close> loop of \<open>generateQuestion\<close>; the numeral argument is the number of
  iterations left. Each iteration picks a range, runs the retry loop, pushes the
  frequency and adds it to \<open>usedFrequencies\<close>.
\<close>

fun generateFrequencies ::
  "random_source \<Rightarrow> difficulty_config \<Rightarrow> nat \<Rightarrow> real list \<Rightarrow> real option set \<Rightarrow> nat
     \<Rightarrow> error + (real list \<times> real option set \<times> nat)" where
  "generateFrequencies rnd config 0 fs usedFrequencies pos = Inr (fs, usedFrequencies, pos)"
| "generateFrequencies rnd config (Suc n) fs usedFrequencies pos =
     (case pickRange (rnd pos) of
        None \<Rightarrow> Inl TypeError
      | Some frange \<Rightarrow>
          (let (frequency, pos') = retryLoop rnd frange config fs usedFrequencies 0 (pos + 1)
           in generateFrequencies rnd config n (fs @ [frequency])
                (insert (Some frequency) usedFrequencies) pos'))"

text \<open>
  \<open>QuestionGenerator.generateQuestion(config, usedFrequencies)\<close>. The frequencies are
  sorted ascending; when \<open>config.stereo\<close> is set one more random number is drawn and
  the order is reversed if it is below 0.5. The call mutates \<open>usedFrequencies\<close>; the
  model returns the set after the call.
\<close>

definition generateQuestion ::
  "random_source \<Rightarrow> difficulty_config \<Rightarrow> real option set \<Rightarrow> nat
     \<Rightarrow> error + (question \<times> real option set \<times> nat)" where
  "generateQuestion rnd config usedFrequencies pos =
     (case generateFrequencies rnd config (freqCount config) [] usedFrequencies pos of
        Inl e \<Rightarrow> Inl e
      | Inr (fs, used', pos') \<Rightarrow>
          (let sorted = sort fs;
               (finalFrequencies, pos'') =
                  (if stereo config
                   then (if rnd pos' < 0.5 then rev sorted else sorted, pos' + 1)
                   else (sorted, pos'))
           in Inr (\<lparr> frequencies = finalFrequencies,
                      questionStereo = stereo config,
                      waveform = ''sine'',
                      duration = 10,
                      questionEqualLoudness = equalLoudness config \<rparr>, used', pos'')))"

text \<open>
  The \<open>for\<close> loop of \<open>generateQuestions\<close>; the numeral argument is the number of
  iterations left. \<open>usedFrequencies.add(question.frequency)\<close> reads a field the
  question does not have, so it adds \<open>undefined\<close>.
\<close>

fun generateLoop ::
  "random_source \<Rightarrow> difficulty_config \<Rightarrow> nat \<Rightarrow> question list \<Rightarrow> real option set \<Rightarrow> nat
     \<Rightarrow> error + (question list \<times> real option set \<times> nat)" where
  "generateLoop rnd config 0 questions usedFrequencies pos = Inr (questions, usedFrequencies, pos)"
| "generateLoop rnd config (Suc n) questions usedFrequencies pos =
     (case generateQuestion rnd config usedFrequencies pos of
        Inl e \<Rightarrow> Inl e
      | Inr (q, used', pos') \<Rightarrow>
          generateLoop rnd config n (questions @ [q]) (insert None used') pos')"

text \<open>
  \<open>QuestionGenerator.generateQuestions(difficulty, count)\<close>; the parameter \<open>count\<close>
  is \<open>questionCount\<close> here. An unknown difficulty makes \<open>config\<close> \<open>undefined\<close>, and
  the first \<open>config.freqCount\<close> raises.
\<close>

definition generateQuestions :: "random_source \<Rightarrow> string \<Rightarrow> nat \<Rightarrow> error + question list" where
  "generateQuestions rnd difficulty questionCount =
     (case DIFFICULTY difficulty of
        None \<Rightarrow> (if questionCount = 0 then Inr [] else Inl TypeError)
      | Some config \<Rightarrow>
          (case generateLoop rnd config questionCount [] {} 0 of
             Inl e \<Rightarrow> Inl e
           | Inr (questions, used, pos) \<Rightarrow> Inr (fst (shuffle rnd questions pos))))"

subsection \<open>Properties of generated questions, as the specification words them\<close>

text \<open>A frequency lies inside one of the 7 generation bands.\<close>

definition inSomeBand :: "real \<Rightarrow> bool" where
  "inSomeBand f = (\<exists>(name, r)\<in>set FREQUENCY_RANGES. rangeMin r \<le> f \<and> f \<le> rangeMax r)"

text \<open>
  Every two different frequencies of a question are at least the profile's gap ratio
  apart. (With \<open>distinct\<close>, which the theorems state beside it, this is the
  specification's pairwise check.)
\<close>

definition pairwiseGap :: "difficulty_config \<Rightarrow> real list \<Rightarrow> bool" where
  "pairwiseGap config fs =
     (\<forall>f\<in>set fs. \<forall>g\<in>set fs. f \<noteq> g \<longrightarrow> minFreqGap config \<le> max f g / min f g)"

text \<open>
  The retry loop entered at call index \<open>pos\<close> is exhausted: each of its 100 candidates
  fails the test, so the loop ends through \<open>while (attempts < 100)\<close> and not through
  \<open>break\<close>.
\<close>

definition retriesExhausted ::
  "random_source \<Rightarrow> freq_range \<Rightarrow> difficulty_config \<Rightarrow> real list \<Rightarrow> real option set \<Rightarrow> nat \<Rightarrow> bool" where
  "retriesExhausted rnd frange config fs usedFrequencies pos =
     (\<forall>k<100. \<not> accepted config fs usedFrequencies
                  (randomLogFreq (rangeMin frange) (rangeMax frange) (rnd (pos + k))))"

text \<open>
  Some retry loop of a call of \<open>generateQuestion\<close> is exhausted. The function follows
  the iterations of \<open>generateFrequencies\<close> and looks at each retry loop where it starts.
\<close>

fun slotExhausted ::
  "random_source \<Rightarrow> difficulty_config \<Rightarrow> nat \<Rightarrow> real list \<Rightarrow> real option set \<Rightarrow> nat \<Rightarrow> bool" where
  "slotExhausted rnd config 0 fs usedFrequencies pos = False"
| "slotExhausted rnd config (Suc n) fs usedFrequencies pos =
     (case pickRange (rnd pos) of
        None \<Rightarrow> False
      | Some frange \<Rightarrow>
          retriesExhausted rnd frange config fs usedFrequencies (pos + 1)
          \<or> (let (frequency, pos') = retryLoop rnd frange config fs usedFrequencies 0 (pos + 1)
              in slotExhausted rnd config n (fs @ [frequency])
                   (insert (Some frequency) usedFrequencies) pos'))"

definition questionExhausted ::
  "random_source \<Rightarrow> difficulty_config \<Rightarrow> real option set \<Rightarrow> nat \<Rightarrow> bool" where
  "questionExhausted rnd config usedFrequencies pos =
     slotExhausted rnd config (freqCount config) [] usedFrequencies pos"

text \<open>
  For each question of a batch, in the order of generation, whether one of its retry
  loops is exhausted. The function follows the iterations of \<open>generateLoop\<close>.
\<close>

fun exhaustionFlags ::
  "random_source \<Rightarrow> difficulty_config \<Rightarrow> nat \<Rightarrow> real option set \<Rightarrow> nat \<Rightarrow> bool list" where
  "exhaustionFlags rnd config 0 usedFrequencies pos = []"
| "exhaustionFlags rnd config (Suc n) usedFrequencies pos =
     (case generateQuestion rnd config usedFrequencies pos of
        Inl e \<Rightarrow> []
      | Inr (q, used', pos') \<Rightarrow>
          questionExhausted rnd config usedFrequencies pos
            # exhaustionFlags rnd config n (insert None used') pos')"

section \<open>Auxiliary functions for bounding the exponential function\<close>

text \<open>
  Two functions that are not in the source; they serve to bound \<open>exp\<close> between rationals.
  \<open>taylorH k j x b\<close> is the nested form
  \<open>1 + x/k * (1 + x/(k+1) * (... (1 + x/(k+j-1) * b)))\<close>; from \<open>k = 1\<close> it is the Taylor
  polynomial of \<open>exp\<close> at \<open>x\<close> with \<open>j\<close> terms, plus \<open>x^j / j! * b\<close>.
  \<open>hornerInt r k j X b\<close> evaluates it in fixed-point arithmetic with 64 fractional bits
  (\<open>fixScale\<close> is \<open>2^64\<close>), rounding every step down when \<open>r = 0\<close> and up when
  \<open>r = 1\<close>.
\<close>

fun taylorH :: "nat \<Rightarrow> nat \<Rightarrow> real \<Rightarrow> real \<Rightarrow> real" where
  "taylorH k 0 x b = b"
| "taylorH k (Suc j) x b = 1 + x / real k * taylorH (Suc k) j x b"

definition fixScale :: int where
  "fixScale = 18446744073709551616"

fun hornerInt :: "int \<Rightarrow> nat \<Rightarrow> nat \<Rightarrow> int \<Rightarrow> int \<Rightarrow> int" where
  "hornerInt r k 0 X b = b"
| "hornerInt r k (Suc j) X b
     = fixScale + (X * hornerInt r (Suc k) j X b) div (int k * fixScale) + r"

section \<open>Facts about rounding to a double\<close>

lemma pow2_powr: "pow2 k = 2 powr of_int k"
  by (auto simp: pow2_def powr_real_of_int field_simps)

lemma pow2_pos [simp]: "0 < pow2 k"
  by (simp add: pow2_powr)

lemma pow2_nonneg [simp]: "0 \<le> pow2 k"
  by (simp add: pow2_powr)

lemma pow2_not_le0 [simp]: "\<not> pow2 k \<le> 0"
  by (simp add: pow2_powr not_le)

lemma pow2_neq0 [simp]: "pow2 k \<noteq> 0"
  using pow2_pos [of k] by linarith

lemma pow2_add: "pow2 (a + b) = pow2 a * pow2 b"
  by (simp add: pow2_powr powr_add)

lemma pow2_mono: "a \<le> b \<Longrightarrow> pow2 a \<le> pow2 b"
  by (simp add: pow2_powr)

lemma pow2_0 [simp]: "pow2 0 = 1"
  by (simp add: pow2_def)

lemma binade_bounds:
  assumes "x \<noteq> 0"
  shows "pow2 (binade x) \<le> \<bar>x\<bar>" "\<bar>x\<bar> < pow2 (binade x + 1)"
proof -
  have pos: "0 < \<bar>x\<bar>" using assms by simp
  have "of_int (binade x) \<le> log 2 \<bar>x\<bar>" by (simp add: binade_def)
  then have "2 powr of_int (binade x) \<le> 2 powr log 2 \<bar>x\<bar>" by simp
  with pos show "pow2 (binade x) \<le> \<bar>x\<bar>" by (simp add: pow2_powr)
  have "log 2 \<bar>x\<bar> < of_int (binade x + 1)" by (simp add: binade_def)
  then have "2 powr log 2 \<bar>x\<bar> < 2 powr of_int (binade x + 1)" by simp
  with pos show "\<bar>x\<bar> < pow2 (binade x + 1)" by (simp add: pow2_powr)
qed

lemma binade_unique:
  assumes "pow2 k \<le> \<bar>x\<bar>" "\<bar>x\<bar> < pow2 (k + 1)"
  shows "binade x = k"
proof -
  have pos: "0 < \<bar>x\<bar>" using assms(1) pow2_pos [of k] by linarith
  have "log 2 (pow2 k) \<le> log 2 \<bar>x\<bar>" using assms(1) pos by simp
  then have a: "of_int k \<le> log 2 \<bar>x\<bar>" by (simp add: pow2_powr)
  have "log 2 \<bar>x\<bar> < log 2 (pow2 (k + 1))" using assms(2) pos by simp
  then have b: "log 2 \<bar>x\<bar> < of_int k + 1" by (simp add: pow2_powr)
  show ?thesis unfolding binade_def using a b by (rule floor_unique)
qed

lemma roundEven_cases:
  "roundEven m = \<lfloor>m\<rfloor> \<or> roundEven m = \<lfloor>m\<rfloor> + 1"
  unfolding roundEven_def round_def by (auto) linarith+

lemma roundEven_error: "\<bar>of_int (roundEven m) - m\<bar> \<le> 1 / 2"
proof (cases "m - of_int \<lfloor>m\<rfloor> = 1 / 2")
  case True
  then show ?thesis by (auto simp: roundEven_def)
next
  case False
  then have "roundEven m = round m" by (simp add: roundEven_def)
  then show ?thesis using of_int_round_abs_le [of m] by (simp add: abs_minus_commute)
qed

lemma roundEven_of_int [simp]: "roundEven (of_int n) = n"
  by (simp add: roundEven_def)

lemma roundEven_mono: "a \<le> b \<Longrightarrow> roundEven a \<le> roundEven b"
proof -
  assume ab: "a \<le> b"
  show ?thesis
  proof (cases "\<lfloor>a\<rfloor> = \<lfloor>b\<rfloor>")
    case True
    have fa: "of_int \<lfloor>a\<rfloor> \<le> a" "a < of_int \<lfloor>a\<rfloor> + 1" by linarith+
    have fb: "of_int \<lfloor>b\<rfloor> \<le> b" "b < of_int \<lfloor>b\<rfloor> + 1" by linarith+
    show ?thesis
    proof (cases "a = b")
      case True
      then show ?thesis by simp
    next
      case False
      with ab have lt: "a < b" by simp
      have ra: "a - of_int \<lfloor>a\<rfloor> < 1 / 2 \<Longrightarrow> roundEven a = \<lfloor>a\<rfloor>"
        unfolding roundEven_def round_def by (auto) linarith
      have rb: "b - of_int \<lfloor>b\<rfloor> > 1 / 2 \<Longrightarrow> roundEven b = \<lfloor>b\<rfloor> + 1"
        unfolding roundEven_def round_def by (auto) linarith
      consider "a - of_int \<lfloor>a\<rfloor> < 1 / 2" | "b - of_int \<lfloor>b\<rfloor> > 1 / 2"
        using lt True by fastforce
      then show ?thesis
      proof cases
        case 1
        with ra have "roundEven a = \<lfloor>a\<rfloor>" by simp
        with True roundEven_cases [of b] show ?thesis by auto
      next
        case 2
        with rb have "roundEven b = \<lfloor>b\<rfloor> + 1" by simp
        with True roundEven_cases [of a] show ?thesis by auto
      qed
    qed
  next
    case False
    from ab have "\<lfloor>a\<rfloor> \<le> \<lfloor>b\<rfloor>" by (rule floor_mono)
    with False have "\<lfloor>a\<rfloor> + 1 \<le> \<lfloor>b\<rfloor>" by simp
    with roundEven_cases [of a] roundEven_cases [of b] show ?thesis by auto
  qed
qed

lemma round_strict: "m - of_int \<lfloor>m\<rfloor> \<noteq> 1 / 2 \<Longrightarrow> \<bar>m - of_int (round m)\<bar> < 1 / 2"
proof -
  assume nt: "m - of_int \<lfloor>m\<rfloor> \<noteq> 1 / 2"
  let ?r = "round m"
  have a: "of_int ?r \<le> m + 1 / 2" "m + 1 / 2 < of_int ?r + 1"
    unfolding round_def by linarith+
  have "m + 1 / 2 \<noteq> of_int ?r"
  proof
    assume e: "m + 1 / 2 = of_int ?r"
    then have "m = of_int (?r - 1) + 1 / 2" by simp
    then have "\<lfloor>m\<rfloor> = ?r - 1" by (intro floor_unique) simp_all
    with e nt show False by simp
  qed
  with a show ?thesis by linarith
qed

lemma roundEven_minus: "roundEven (- m) = - roundEven m"
proof (cases "m - of_int \<lfloor>m\<rfloor> = 1 / 2")
  case True
  then have m: "m = of_int \<lfloor>m\<rfloor> + 1 / 2" by simp
  have f: "\<lfloor>- m\<rfloor> = - \<lfloor>m\<rfloor> - 1"
    by (rule floor_unique) (use m in linarith)+
  then have t: "- m - of_int \<lfloor>- m\<rfloor> = 1 / 2" using m by simp
  show ?thesis
    using True t f by (simp add: roundEven_def)
next
  case False
  have nt: "- m - of_int \<lfloor>- m\<rfloor> \<noteq> 1 / 2"
  proof
    assume t: "- m - of_int \<lfloor>- m\<rfloor> = 1 / 2"
    then have "m = of_int (- \<lfloor>- m\<rfloor> - 1) + 1 / 2" by simp
    then have "\<lfloor>m\<rfloor> = - \<lfloor>- m\<rfloor> - 1" by (intro floor_unique) simp_all
    with t False show False by simp
  qed
  have "- m - of_int (- round m) = - (m - of_int (round m))" by simp
  with round_strict [OF False] have "\<bar>- m - of_int (- round m)\<bar> < 1 / 2"
    by (simp only: abs_minus_cancel)
  then have "round (- m) = - round m" by (rule round_unique')
  with False nt show ?thesis by (simp add: roundEven_def)
qed

lemma binade_minus [simp]: "binade (- x) = binade x"
  by (simp add: binade_def)

lemma double_minus: "double (- x) = - double x"
  by (simp add: double_def roundEven_minus)

lemma double_0 [simp]: "double 0 = 0"
  by (simp add: double_def)

lemma double_scaled:
  assumes "x \<noteq> 0"
  shows "double x = of_int (roundEven (x / pow2 (binade x - 52))) * pow2 (binade x - 52)"
  using assms by (simp add: double_def)

lemma double_eval:
  assumes "pow2 k \<le> \<bar>x\<bar>" "\<bar>x\<bar> < pow2 (k + 1)"
  shows "double x = of_int (roundEven (x / pow2 (k - 52))) * pow2 (k - 52)"
proof -
  from assms have "binade x = k" by (rule binade_unique)
  moreover from assms(1) have "x \<noteq> 0" by auto
  ultimately show ?thesis by (simp add: double_def)
qed

lemma pow2_52: "pow2 52 = 4503599627370496"
  by (simp add: pow2_def)

lemma pow2_53: "pow2 53 = 9007199254740992"
  by (simp add: pow2_def)

lemma mantissa_range:
  assumes "0 < x"
  shows "4503599627370496 \<le> roundEven (x / pow2 (binade x - 52))"
    "roundEven (x / pow2 (binade x - 52)) \<le> 9007199254740992"
proof -
  let ?b = "binade x" let ?s = "pow2 (?b - 52)"
  from assms have nz: "x \<noteq> 0" by simp
  from binade_bounds [OF nz] assms have b: "pow2 ?b \<le> x" "x < pow2 (?b + 1)" by simp_all
  have "pow2 ?b = pow2 52 * ?s" "pow2 (?b + 1) = pow2 53 * ?s"
    using pow2_add [of 52 "?b - 52"] pow2_add [of 53 "?b - 52"] by (simp_all add: add.commute)
  with b have "pow2 52 \<le> x / ?s" "x / ?s \<le> pow2 53"
    by (simp_all add: pos_le_divide_eq pos_divide_le_eq)
  then have "roundEven (of_int 4503599627370496) \<le> roundEven (x / ?s)"
    "roundEven (x / ?s) \<le> roundEven (of_int 9007199254740992)"
    by (intro roundEven_mono; simp add: pow2_52 pow2_53)+
  then show "4503599627370496 \<le> roundEven (x / ?s)" "roundEven (x / ?s) \<le> 9007199254740992"
    by (simp_all only: roundEven_of_int)
qed

lemma double_pos_bounds:
  assumes "0 < x"
  shows "pow2 (binade x) \<le> double x" "double x \<le> pow2 (binade x + 1)"
proof -
  let ?b = "binade x" let ?s = "pow2 (?b - 52)"
  from assms have nz: "x \<noteq> 0" by simp
  have e: "pow2 ?b = 4503599627370496 * ?s" "pow2 (?b + 1) = 9007199254740992 * ?s"
    using pow2_add [of 52 "?b - 52"] pow2_add [of 53 "?b - 52"]
    by (simp_all add: add.commute pow2_52 pow2_53)
  from mantissa_range [OF assms]
  have "(4503599627370496 :: real) \<le> of_int (roundEven (x / ?s))"
    "of_int (roundEven (x / ?s)) \<le> (9007199254740992 :: real)"
    by (simp_all add: of_int_le_iff [symmetric] del: of_int_le_iff)
  then show "pow2 ?b \<le> double x" "double x \<le> pow2 (?b + 1)"
    unfolding double_scaled [OF nz] e by (simp_all add: mult_right_mono)
qed

lemma binade_mono: "0 < x \<Longrightarrow> x \<le> y \<Longrightarrow> binade x \<le> binade y"
  unfolding binade_def by (intro floor_mono) simp

lemma double_mono_pos:
  assumes "0 < x" "x \<le> y"
  shows "double x \<le> double y"
proof -
  from assms have y: "0 < y" by simp
  from assms have nz: "x \<noteq> 0" "y \<noteq> 0" by simp_all
  show ?thesis
  proof (cases "binade x = binade y")
    case True
    let ?s = "pow2 (binade y - 52)"
    have "x / ?s \<le> y / ?s" using assms(2) by (intro divide_right_mono) simp_all
    then have "roundEven (x / ?s) \<le> roundEven (y / ?s)" by (rule roundEven_mono)
    then have "of_int (roundEven (x / ?s)) * ?s \<le> of_int (roundEven (y / ?s)) * ?s"
      by (simp add: mult_right_mono)
    then show ?thesis unfolding double_scaled [OF nz(1)] double_scaled [OF nz(2)] True .
  next
    case False
    with binade_mono [OF assms] have "binade x + 1 \<le> binade y" by simp
    then have "pow2 (binade x + 1) \<le> pow2 (binade y)" by (rule pow2_mono)
    with double_pos_bounds(2) [OF assms(1)] double_pos_bounds(1) [OF y] show ?thesis by linarith
  qed
qed

lemma double_pos: "0 < x \<Longrightarrow> 0 < double x"
  using double_pos_bounds(1) [of x] pow2_pos [of "binade x"] by linarith

lemma double_neg: "x < 0 \<Longrightarrow> double x < 0"
  using double_pos [of "- x"] by (simp add: double_minus)

lemma double_mono: "x \<le> y \<Longrightarrow> double x \<le> double y"
proof -
  assume xy: "x \<le> y"
  consider "0 < x" | "x \<le> 0" "0 \<le> y" | "y < 0" using xy by linarith
  then show ?thesis
  proof cases
    case 1
    then show ?thesis using xy by (rule double_mono_pos)
  next
    case 2
    have "double x \<le> 0" using 2(1) double_neg [of x] by (cases "x = 0") auto
    moreover have "0 \<le> double y" using 2(2) double_pos [of y] by (cases "y = 0") auto
    ultimately show ?thesis by simp
  next
    case 3
    with xy have "0 < - y" "- y \<le> - x" by simp_all
    then have "double (- y) \<le> double (- x)" by (rule double_mono_pos)
    then show ?thesis by (simp add: double_minus)
  qed
qed

lemma double_error:
  assumes "x \<noteq> 0"
  shows "\<bar>double x - x\<bar> \<le> pow2 (binade x - 53)" "pow2 (binade x - 53) \<le> \<bar>x\<bar> / 9007199254740992"
proof -
  let ?b = "binade x" let ?s = "pow2 (?b - 52)"
  have s: "0 < ?s" by simp
  have "\<bar>of_int (roundEven (x / ?s)) - x / ?s\<bar> \<le> 1 / 2" by (rule roundEven_error)
  then have "\<bar>of_int (roundEven (x / ?s)) - x / ?s\<bar> * ?s \<le> 1 / 2 * ?s"
    by (rule mult_right_mono) simp
  moreover have "\<bar>of_int (roundEven (x / ?s)) - x / ?s\<bar> * ?s
      = \<bar>of_int (roundEven (x / ?s)) * ?s - x\<bar>"
  proof -
    have "(of_int (roundEven (x / ?s)) - x / ?s) * ?s = of_int (roundEven (x / ?s)) * ?s - x"
      by (simp add: left_diff_distrib)
    then have "\<bar>of_int (roundEven (x / ?s)) * ?s - x\<bar>
        = \<bar>of_int (roundEven (x / ?s)) - x / ?s\<bar> * \<bar>?s\<bar>"
      by (simp only: abs_mult [symmetric])
    then show ?thesis by simp
  qed
  moreover have h: "1 / 2 * ?s = pow2 (?b - 53)"
  proof -
    have "pow2 (?b - 52) = pow2 (?b - 53) * pow2 1" by (simp add: pow2_add [symmetric])
    then show ?thesis by (simp add: pow2_def)
  qed
  ultimately show "\<bar>double x - x\<bar> \<le> pow2 (?b - 53)"
    unfolding double_scaled [OF assms] by simp
  have "pow2 ?b = pow2 (?b - 53) * pow2 53" by (simp add: pow2_add [symmetric])
  with binade_bounds(1) [OF assms] show "pow2 (?b - 53) \<le> \<bar>x\<bar> / 9007199254740992"
    by (simp add: pow2_53 pos_le_divide_eq)
qed

lemma pow2_le_cancel: "pow2 a \<le> pow2 b \<Longrightarrow> a \<le> b"
  by (simp add: pow2_powr)

lemma pow2_nat: "0 \<le> d \<Longrightarrow> pow2 d = of_int (2 ^ nat d)"
  by (simp add: pow2_def)

lemma double_fix:
  assumes N: "\<bar>N\<bar> \<le> 9007199254740992"
  shows "double (of_int N * pow2 e) = of_int N * pow2 e"
proof (cases "N = 0")
  case True
  then show ?thesis by simp
next
  case False
  define x :: real where "x = of_int N * pow2 e"
  define b where "b = binade x"
  define s where "s = pow2 (b - 52)"
  define t where "t = pow2 (e - (b - 52))"
  have nz: "x \<noteq> 0" using False by (simp add: x_def)
  have spos: "0 < s" by (simp add: s_def)
  have ax: "\<bar>x\<bar> = of_int \<bar>N\<bar> * pow2 e" by (simp add: x_def abs_mult)
  have le1: "of_int \<bar>N\<bar> * pow2 e \<le> pow2 53 * pow2 e"
    using N by (intro mult_right_mono) (simp_all add: pow2_53)
  have lb: "pow2 b \<le> of_int \<bar>N\<bar> * pow2 e"
    using binade_bounds(1) [OF nz] unfolding ax b_def .
  from lb le1 have "pow2 b \<le> pow2 53 * pow2 e" by (rule order_trans)
  then have "pow2 b \<le> pow2 (53 + e)" by (simp only: pow2_add)
  then have "b \<le> 53 + e" by (rule pow2_le_cancel)
  then have d: "- 1 \<le> e - (b - 52)" by simp
  have "pow2 e = pow2 ((e - (b - 52)) + (b - 52))" by simp
  then have split: "pow2 e = t * s" unfolding t_def s_def by (simp only: pow2_add)
  have xs: "x / s = of_int N * t"
    using spos by (simp add: x_def split)
  have "\<exists>M :: int. x / s = of_int M"
  proof (cases "0 \<le> e - (b - 52)")
    case True
    have "t = of_int (2 ^ nat (e - (b - 52)))" unfolding t_def using True by (rule pow2_nat)
    with xs have "x / s = of_int (N * 2 ^ nat (e - (b - 52)))" by simp
    then show ?thesis by blast
  next
    case False
    with d have d1: "e - (b - 52) = - 1" by simp
    then have b: "b = 53 + e" by simp
    from lb have "pow2 53 * pow2 e \<le> of_int \<bar>N\<bar> * pow2 e"
      unfolding b by (simp only: pow2_add)
    then have "pow2 53 \<le> of_int \<bar>N\<bar>" by (simp add: mult_le_cancel_right)
    then have "9007199254740992 \<le> \<bar>N\<bar>" by (simp add: pow2_53)
    with N have "\<bar>N\<bar> = 9007199254740992" by simp
    then have "N = 2 * (N div 2)" by presburger
    then have "(of_int N :: real) = 2 * of_int (N div 2)"
      by (metis of_int_mult of_int_numeral)
    moreover have "t = 1 / 2" unfolding t_def d1 by (simp add: pow2_def)
    ultimately have "x / s = of_int (N div 2)" using xs by simp
    then show ?thesis by blast
  qed
  then obtain M :: int where M: "x / s = of_int M" by blast
  have "double x = of_int (roundEven (x / s)) * s"
    unfolding s_def b_def by (rule double_scaled [OF nz])
  also have "\<dots> = of_int M * s" unfolding M by simp
  also have "\<dots> = x / s * s" using M by simp
  also have "\<dots> = x" using spos by simp
  finally show ?thesis unfolding x_def .
qed



lemma double_of_int:
  "\<bar>N\<bar> \<le> 9007199254740992 \<Longrightarrow> double (of_int N) = of_int N"
  using double_fix [of N 0] by simp

lemma double_numeral:
  "(numeral w :: int) \<le> 9007199254740992 \<Longrightarrow> double (numeral w) = numeral w"
  using double_of_int [of "numeral w"] by simp

lemma double_neg_numeral:
  "(numeral w :: int) \<le> 9007199254740992 \<Longrightarrow> double (- numeral w) = - numeral w"
  by (simp add: double_minus double_numeral)

lemma double_1: "double 1 = 1"
  using double_of_int [of 1] by simp

lemma double_eval_to:
  assumes "pow2 k \<le> \<bar>x\<bar>" "\<bar>x\<bar> < pow2 (k + 1)"
    and "roundEven (x / pow2 (k - 52)) = N" "y = of_int N * pow2 (k - 52)"
  shows "double x = y"
  using double_eval [OF assms(1,2)] assms(3,4) by simp

lemma double_minus_1: "double (- 1) = - 1"
  by (simp add: double_minus double_1)

section \<open>Facts about the scorer\<close>

lemma padAnswers_eq:
  "padAnswers a u = u @ replicate (length a - length u) 1000"
proof (induction a u rule: padAnswers.induct)
  case (1 a u)
  show ?case
  proof (cases "length u < length a")
    case True
    then obtain n where n: "length a - length u = Suc n"
      by (metis Suc_diff_Suc diff_zero zero_less_diff)
    from True have "padAnswers a u = padAnswers a (u @ [1000])"
      by (subst padAnswers.simps) simp
    also have "\<dots> = (u @ [1000]) @ replicate (length a - length (u @ [1000])) 1000"
      using 1 True by simp
    also have "\<dots> = u @ replicate (length a - length u) 1000"
      using n by (simp add: replicate_app_Cons_same)
    finally show ?thesis .
  next
    case False
    then show ?thesis by (subst padAnswers.simps) simp
  qed
qed








section \<open>The claims about the scorer\<close>


text \<open>
  The list of actual frequencies has to be non-empty: for the empty list the mean is
  \<open>0 / 0\<close>, and the score and the average error of the returned object are \<open>NaN\<close>.
\<close>

lemma calculateMultiScore_empty: "calculateMultiScore [] userAnswers sortAnswers = None"
  by (simp add: calculateMultiScore_def pairErrors_def mean_def)


lemma mean_Some_iff: "(\<exists>m. mean es = Some m) \<longleftrightarrow> es \<noteq> []"
  by (simp add: mean_def)

lemma pairErrors_Nil_iff: "pairErrors a u = [] \<longleftrightarrow> a = [] \<or> u = []"
  by (cases a; cases u) (simp_all add: pairErrors_def)

lemma length_padAnswers: "length (padAnswers a u) = max (length a) (length u)"
  by (simp add: padAnswers_eq)

lemma length_sortIfAdvanced: "length (sortIfAdvanced s u) = length u"
  by (simp add: sortIfAdvanced_def)

lemma length_pairErrors: "length (pairErrors a u) = min (length a) (length u)"
  by (simp add: pairErrors_def)

lemma calculateMultiScore_total:
  "a \<noteq> [] \<Longrightarrow> \<exists>r. calculateMultiScore a u s = Some r"
proof -
  assume a: "a \<noteq> []"
  have "length (pairErrors a (sortIfAdvanced s (padAnswers a u))) = length a"
    by (simp add: length_pairErrors length_sortIfAdvanced length_padAnswers)
  with a have "pairErrors a (sortIfAdvanced s (padAnswers a u)) \<noteq> []"
    by auto
  then obtain m where "mean (pairErrors a (sortIfAdvanced s (padAnswers a u))) = Some m"
    using mean_Some_iff by blast
  then show ?thesis by (simp add: calculateMultiScore_def)
qed

lemma padAnswers_idem: "padAnswers a (padAnswers a u) = padAnswers a u"
  by (simp add: padAnswers_eq)

lemma padAnswers_long: "length a \<le> length u \<Longrightarrow> padAnswers a u = u"
  by (simp add: padAnswers_eq)

text \<open>
  What \<open>sortAnswers\<close> changes: the scorer pairs the actual frequencies with the padded
  answers, sorted when there are exactly three of them.
\<close>

lemma calculateMultiScore_sortAnswers:
  "calculateMultiScore a u True
     = calculateMultiScore a (sortIfAdvanced True (padAnswers a u)) False"
proof -
  have "length a \<le> length (sortIfAdvanced True (padAnswers a u))"
    by (simp add: length_sortIfAdvanced length_padAnswers)
  then have "padAnswers a (sortIfAdvanced True (padAnswers a u))
               = sortIfAdvanced True (padAnswers a u)"
    by (rule padAnswers_long)
  then show ?thesis
    by (simp add: calculateMultiScore_def sortIfAdvanced_def)
qed

lemma calculateMultiScore_sorted_three:
  assumes "length u = 3" "length a \<le> 3"
  shows "calculateMultiScore a u True = calculateMultiScore a (sort u) False"
proof -
  from assms have "padAnswers a u = u" by (simp add: padAnswers_long)
  with assms(1) have "sortIfAdvanced True (padAnswers a u) = sort u"
    by (simp add: sortIfAdvanced_def)
  with calculateMultiScore_sortAnswers [of a u] show ?thesis by simp
qed

lemma calculateMultiScore_unsorted:
  assumes "length (padAnswers a u) \<noteq> 3"
  shows "calculateMultiScore a u True = calculateMultiScore a u False"
  using assms by (simp add: calculateMultiScore_def sortIfAdvanced_def)

lemma calculateMultiScoreD_sortAnswers:
  "calculateMultiScoreD a u True
     = calculateMultiScoreD a (sortIfAdvanced True (padAnswers a u)) False"
proof -
  have "length a \<le> length (sortIfAdvanced True (padAnswers a u))"
    by (simp add: length_sortIfAdvanced length_padAnswers)
  then have "padAnswers a (sortIfAdvanced True (padAnswers a u))
               = sortIfAdvanced True (padAnswers a u)"
    by (rule padAnswers_long)
  then show ?thesis
    by (simp add: calculateMultiScoreD_def sortIfAdvanced_def)
qed

text \<open>
  C7. When the submitted answers are fewer than the actual frequencies,
  \<open>calculateMultiScore\<close> appends the default 1000 Hz until the lengths match and
  scores the padded list as it would score it had it been submitted; the call returns
  a result and raises nothing.
\<close>

theorem short_answers_padded:
  "length userAnswers < length actualFreqs \<longrightarrow>
     padAnswers actualFreqs userAnswers
       = userAnswers @ replicate (length actualFreqs - length userAnswers) 1000
     \<and> length (padAnswers actualFreqs userAnswers) = length actualFreqs
     \<and> calculateMultiScore actualFreqs userAnswers sortAnswers
       = calculateMultiScore actualFreqs
           (userAnswers @ replicate (length actualFreqs - length userAnswers) 1000) sortAnswers
     \<and> (\<exists>r. calculateMultiScore actualFreqs userAnswers sortAnswers = Some r)"
proof (intro impI conjI)
  assume h: "length userAnswers < length actualFreqs"
  show "padAnswers actualFreqs userAnswers
       = userAnswers @ replicate (length actualFreqs - length userAnswers) 1000"
    by (rule padAnswers_eq)
  show "length (padAnswers actualFreqs userAnswers) = length actualFreqs"
    using h by (simp add: length_padAnswers)
  have "padAnswers actualFreqs (padAnswers actualFreqs userAnswers)
        = padAnswers actualFreqs userAnswers"
    by (rule padAnswers_idem)
  then show "calculateMultiScore actualFreqs userAnswers sortAnswers
       = calculateMultiScore actualFreqs
           (userAnswers @ replicate (length actualFreqs - length userAnswers) 1000) sortAnswers"
    by (simp add: calculateMultiScore_def padAnswers_eq)
  from h have "actualFreqs \<noteq> []" by auto
  then show "\<exists>r. calculateMultiScore actualFreqs userAnswers sortAnswers = Some r"
    by (rule calculateMultiScore_total)
qed

theorem short_answers_padded_witness:
  "padAnswers [500, 2000] [500] = [500, 1000]
   \<and> calculateMultiScore [500, 2000] [500] False = calculateMultiScore [500, 2000] [500, 1000] False
   \<and> (\<exists>r. calculateMultiScore [500, 2000] [500] False = Some r)"
proof -
  have h: "length [500 :: real] < length [500, 2000 :: real]" by simp
  note T = short_answers_padded [of "[500]" "[500, 2000]" False]
  from T h have p: "padAnswers [500, 2000] [500]
      = [500] @ replicate (length [500, 2000 :: real] - length [500 :: real]) 1000"
    by blast
  from T h have c: "calculateMultiScore [500, 2000] [500] False
      = calculateMultiScore [500, 2000]
          ([500] @ replicate (length [500, 2000 :: real] - length [500 :: real]) 1000) False"
    by blast
  from T h have e: "\<exists>r. calculateMultiScore [500, 2000] [500] False = Some r"
    by blast
  from p have "padAnswers [500, 2000] [500] = [500, 1000]" by simp
  moreover from c have "calculateMultiScore [500, 2000] [500] False
      = calculateMultiScore [500, 2000] [500, 1000] False" by simp
  ultimately show ?thesis using e by blast
qed

lemma double_threshold_01: "double 0.01 = 5764607523034235 / 576460752303423488"
proof -
  have "double 0.01 = of_int (roundEven (0.01 / pow2 (- 7 - 52))) * pow2 (- 7 - 52)"
    by (rule double_eval) (simp_all add: pow2_def)
  also have "\<dots> = 5764607523034235 / 576460752303423488"
    by (simp add: pow2_def roundEven_def round_def)
  finally show ?thesis .
qed

lemma double_threshold_05: "double 0.05 = 7205759403792794 / 144115188075855872"
proof -
  have "double 0.05 = of_int (roundEven (0.05 / pow2 (- 5 - 52))) * pow2 (- 5 - 52)"
    by (rule double_eval) (simp_all add: pow2_def)
  also have "\<dots> = 7205759403792794 / 144115188075855872"
    by (simp add: pow2_def roundEven_def round_def)
  finally show ?thesis .
qed

lemma double_threshold_10: "double 0.10 = 7205759403792794 / 72057594037927936"
proof -
  have "double 0.10 = of_int (roundEven (0.10 / pow2 (- 4 - 52))) * pow2 (- 4 - 52)"
    by (rule double_eval) (simp_all add: pow2_def)
  also have "\<dots> = 7205759403792794 / 72057594037927936"
    by (simp add: pow2_def roundEven_def round_def)
  finally show ?thesis .
qed











lemma double_hundredth: "double (1 / 100) = 5764607523034235 / 576460752303423488"
  using double_threshold_01 by simp

lemma double_twentieth: "double (1 / 20) = 7205759403792794 / 144115188075855872"
  using double_threshold_05 by simp

lemma double_9_hundredths: "double (9 / 100) = 3242591731706757 / 36028797018963968"
  by (rule double_eval_to [where k = "- 4" and N = 6485183463413514])
     (simp_all add: pow2_def roundEven_def round_def)

lemma double_sum_example:
  "double (57646075230342347 / 576460752303423488) = 7205759403792793 / 72057594037927936"
  by (rule double_eval_to [where k = "- 4" and N = 7205759403792793])
     (simp_all add: pow2_def roundEven_def round_def)

lemma double_mean_example:
  "double (7205759403792793 / 144115188075855872) = 7205759403792793 / 144115188075855872"
  using double_fix [of 7205759403792793 "- 57"] by (simp add: pow2_def)

lemma double_percent_example_1:
  "double (180143985094819825 / 36028797018963968) = 5"
  by (rule double_eval_to [where k = 2 and N = 5629499534213120])
     (simp_all add: pow2_def roundEven_def round_def)

lemma double_percent_example_2:
  "double (90071992547409925 / 18014398509481984) = 5"
  by (rule double_eval_to [where k = 2 and N = 5629499534213120])
     (simp_all add: pow2_def roundEven_def round_def)

lemma double_hundredth_idem:
  "double (5764607523034235 / 576460752303423488) = 5764607523034235 / 576460752303423488"
  using double_fix [of 5764607523034235 "- 59"] by (simp add: pow2_def)

lemma double_twentieth_idem:
  "double (3602879701896397 / 72057594037927936) = 3602879701896397 / 72057594037927936"
  using double_fix [of 3602879701896397 "- 56"] by (simp add: pow2_def)

lemma meanD_example_1:
  "meanD (pairErrorsD [100, 200] [101, 218])
     = Some (7205759403792793 / 144115188075855872)"
  by (simp add: meanD_def pairErrorsD_def calculateErrorD_def double_minus_1 double_neg_numeral
      double_hundredth double_9_hundredths double_hundredth_idem double_sum_example
      double_mean_example)

lemma meanD_example_2:
  "meanD (pairErrorsD [100] [105]) = Some (3602879701896397 / 72057594037927936)"
  by (simp add: meanD_def pairErrorsD_def calculateErrorD_def double_neg_numeral
      double_twentieth double_twentieth_idem)

text \<open>
  The grade is decided by the average error, not by the percentage that is returned with
  it: the product with 100 is rounded. The answers 101 and 218 Hz for 100 and 200 Hz have
  the average error \<open>7205759403792793 / 2^57\<close>, one unit in the last place below the
  double of 0.05, and the grade \<open>Excellent\<close>; the answer 105 Hz for 100 Hz has the
  double of 0.05 as its error and the grade \<open>Good\<close>; both results report
  \<open>avgError = 5\<close>.
\<close>

lemma percent_error_does_not_fix_grade:
  "(\<exists>r. calculateMultiScoreD [100, 200] [101, 218] False = Some r
         \<and> grade r = Excellent \<and> avgError r = 5)
   \<and> (\<exists>r. calculateMultiScoreD [100] [105] False = Some r
         \<and> grade r = Good \<and> avgError r = 5)"
proof
  have "gradeOfErrorD (7205759403792793 / 144115188075855872) = Excellent"
    unfolding gradeOfErrorD_def double_threshold_01 double_threshold_05 by simp
  then show "\<exists>r. calculateMultiScoreD [100, 200] [101, 218] False = Some r
         \<and> grade r = Excellent \<and> avgError r = 5"
    by (simp add: calculateMultiScoreD_def padAnswers_eq sortIfAdvanced_def meanD_example_1
        double_percent_example_1)
next
  have "gradeOfErrorD (3602879701896397 / 72057594037927936) = Good"
    unfolding gradeOfErrorD_def double_threshold_01 double_threshold_05 double_threshold_10
    by simp
  then show "\<exists>r. calculateMultiScoreD [100] [105] False = Some r
         \<and> grade r = Good \<and> avgError r = 5"
    by (simp add: calculateMultiScoreD_def padAnswers_eq sortIfAdvanced_def meanD_example_2
        double_percent_example_2)
qed

lemma sort_cong_mset: "mset (xs :: real list) = mset ys \<Longrightarrow> sort xs = sort ys"
  by (rule properties_for_sort) simp_all

text \<open>
  C6 (as amended). With \<open>sortAnswers\<close> set, three submitted answers and at most three
  actual frequencies, the result of \<open>calculateMultiScore\<close> does not depend on the
  order of the answers: they are sorted ascending before they are paired by position.
  Scoring the answers 3000, 300, 1000 against 300, 1000, 3000 gives average error 0
  when sorted, and a larger one (3110/9 percent) when not.
\<close>

theorem sorted_match_order_invariant:
  "(length userAnswers = 3 \<and> length actualFreqs \<le> 3 \<and> mset userAnswers' = mset userAnswers \<longrightarrow>
      calculateMultiScore actualFreqs userAnswers' True
        = calculateMultiScore actualFreqs userAnswers True)
   \<and> (\<exists>r. calculateMultiScore [300, 1000, 3000] [3000, 300, 1000] True = Some r
          \<and> avgError r = 0 \<and> score r = 100)
   \<and> (\<exists>r. calculateMultiScore [300, 1000, 3000] [3000, 300, 1000] False = Some r
          \<and> avgError r = 3110 / 9)"
proof (intro conjI impI)
  assume h: "length userAnswers = 3 \<and> length actualFreqs \<le> 3 \<and> mset userAnswers' = mset userAnswers"
  then have l': "length userAnswers' = 3"
    by (metis size_mset)
  from h have s: "sort userAnswers' = sort userAnswers"
    by (intro sort_cong_mset) simp
  from h l' have "padAnswers actualFreqs userAnswers' = userAnswers'"
    "padAnswers actualFreqs userAnswers = userAnswers"
    by (simp_all add: padAnswers_eq)
  then show "calculateMultiScore actualFreqs userAnswers' True
        = calculateMultiScore actualFreqs userAnswers True"
    using h l' s by (simp add: calculateMultiScore_def sortIfAdvanced_def)
next
  show "\<exists>r. calculateMultiScore [300, 1000, 3000] [3000, 300, 1000] True = Some r
          \<and> avgError r = 0 \<and> score r = 100"
    by (simp add: calculateMultiScore_def padAnswers_eq sortIfAdvanced_def pairErrors_def
        calculateError_def mean_def scoreOfError_def)
next
  show "\<exists>r. calculateMultiScore [300, 1000, 3000] [3000, 300, 1000] False = Some r
          \<and> avgError r = 3110 / 9"
    by (simp add: calculateMultiScore_def padAnswers_eq sortIfAdvanced_def pairErrors_def
        calculateError_def mean_def)
qed

theorem sorted_match_order_invariant_witness:
  "calculateMultiScore [300, 1000, 3000] [1000, 3000, 300] True
     = calculateMultiScore [300, 1000, 3000] [3000, 300, 1000] True"
  using sorted_match_order_invariant [of "[3000, 300, 1000]" "[300, 1000, 3000]" "[1000, 3000, 300]"]
  by simp

text \<open>
  The claim as it was stated, for every list of actual frequencies, fails: the source
  pads first and tests \<open>userAnswers.length === 3\<close> afterwards, so with four actual
  frequencies three answers become four and are not sorted.
\<close>

theorem sort_gate_counterexample:
  "length [100, 200, 300 :: real] = 3
   \<and> mset [300, 200, 100 :: real] = mset [100, 200, 300]
   \<and> calculateMultiScore [100, 200, 300, 400] [300, 200, 100] True
       \<noteq> calculateMultiScore [100, 200, 300, 400] [100, 200, 300] True"
  by (simp add: calculateMultiScore_def padAnswers_eq sortIfAdvanced_def pairErrors_def
        calculateError_def mean_def)

section \<open>The claim about the logarithmic slider\<close>

subsection \<open>Rational bounds on the exponential function\<close>

lemma taylorH_sum:
  "taylorH (Suc k) j x b
     = (\<Sum>i<j. x ^ i * fact k / fact (k + i)) + x ^ j * fact k / fact (k + j) * b"
proof (induction j arbitrary: k)
  case 0
  show ?case by simp
next
  case (Suc j)
  have step: "x / real (Suc k) * (y * fact (Suc k) / fact (Suc k + i))
                = x * y * fact k / fact (k + Suc i)" for y :: real and i
  proof -
    have n: "real (Suc k) \<noteq> 0" by simp
    have "x / real (Suc k) * (y * (real (Suc k) * fact k) / F) = x * y * fact k / F"
      for F :: real
      using n by (simp del: of_nat_Suc)
    moreover have "(fact (Suc k) :: real) = real (Suc k) * fact k" by simp
    moreover have "Suc k + i = k + Suc i" by simp
    ultimately show ?thesis by (simp only:)
  qed
  have "taylorH (Suc k) (Suc j) x b
          = 1 + x / real (Suc k) * taylorH (Suc (Suc k)) j x b" by simp
  also have "\<dots> = 1 + x / real (Suc k) *
        ((\<Sum>i<j. x ^ i * fact (Suc k) / fact (Suc k + i))
          + x ^ j * fact (Suc k) / fact (Suc k + j) * b)"
    by (simp only: Suc.IH)
  also have "\<dots> = 1 + ((\<Sum>i<j. x / real (Suc k) * (x ^ i * fact (Suc k) / fact (Suc k + i)))
          + x / real (Suc k) * (x ^ j * fact (Suc k) / fact (Suc k + j)) * b)"
    by (simp only: distrib_left sum_distrib_left mult.assoc)
  also have "\<dots> = 1 + ((\<Sum>i<j. x ^ Suc i * fact k / fact (k + Suc i))
          + x ^ Suc j * fact k / fact (k + Suc j) * b)"
    by (simp only: step power_Suc)
  also have "\<dots> = (\<Sum>i<Suc j. x ^ i * fact k / fact (k + i))
          + x ^ Suc j * fact k / fact (k + Suc j) * b"
  proof -
    have "(\<Sum>i<Suc j. x ^ i * fact k / fact (k + i))
            = x ^ 0 * fact k / fact (k + 0) + (\<Sum>i<j. x ^ Suc i * fact k / fact (k + Suc i))"
      by (rule sum.lessThan_Suc_shift)
    moreover have "x ^ 0 * fact k / fact (k + 0) = (1 :: real)" by simp
    ultimately show ?thesis by (simp only: add.assoc)
  qed
  finally show ?case .
qed

lemma taylorH_one:
  "taylorH 1 n x b = (\<Sum>m<n. x ^ m / fact m) + x ^ n / fact n * b"
  using taylorH_sum [of 0 n x b] by simp

lemma exp_ge_taylorH:
  assumes "0 \<le> x"
  shows "taylorH 1 n x 0 \<le> exp x"
proof -
  from Maclaurin_exp_le [of x n] obtain t
    where t: "exp x = (\<Sum>m<n. x ^ m / fact m) + (exp t / fact n) * x ^ n" by blast
  have "0 \<le> (exp t / fact n) * x ^ n" using assms by simp
  with t show ?thesis unfolding taylorH_one by linarith
qed

lemma exp_le_taylorH:
  assumes "0 \<le> x" "exp x \<le> B"
  shows "exp x \<le> taylorH 1 n x B"
proof -
  from Maclaurin_exp_le [of x n] obtain t
    where a: "\<bar>t\<bar> \<le> \<bar>x\<bar>"
      and t: "exp x = (\<Sum>m<n. x ^ m / fact m) + (exp t / fact n) * x ^ n" by blast
  from a assms(1) have "t \<le> x" by simp
  then have "exp t \<le> B" using assms(2) by (meson exp_le_cancel_iff order_trans)
  moreover have "0 \<le> x ^ n / fact n" using assms(1) by simp
  ultimately have "exp t * (x ^ n / fact n) \<le> B * (x ^ n / fact n)"
    by (rule mult_right_mono)
  with t show ?thesis unfolding taylorH_one by (simp add: field_simps)
qed

lemma taylorH_mono:
  "0 \<le> x \<Longrightarrow> b \<le> b' \<Longrightarrow> taylorH k j x b \<le> taylorH k j x b'"
proof (induction j arbitrary: k)
  case 0
  then show ?case by simp
next
  case (Suc j)
  have "0 \<le> x / real k" using Suc.prems(1) by simp
  moreover have "taylorH (Suc k) j x b \<le> taylorH (Suc k) j x b'"
    using Suc by blast
  ultimately have "x / real k * taylorH (Suc k) j x b \<le> x / real k * taylorH (Suc k) j x b'"
    by (intro mult_left_mono)
  then show ?case by simp
qed

lemma fixScale_pos: "0 < fixScale"
  by (simp add: fixScale_def)

lemma hornerInt_lower:
  assumes "0 \<le> X" "0 \<le> b"
  shows "0 \<le> hornerInt 0 k j X b
     \<and> of_int (hornerInt 0 k j X b) / of_int fixScale
         \<le> taylorH k j (of_int X / of_int fixScale) (of_int b / of_int fixScale)"
proof (induction j arbitrary: k)
  case 0
  show ?case using assms by simp
next
  case (Suc j)
  define h where "h = hornerInt 0 (Suc k) j X b"
  define T where "T = taylorH (Suc k) j (of_int X / of_int fixScale) (of_int b / of_int fixScale)"
  define S :: real where "S = of_int fixScale"
  have S: "0 < S" using fixScale_pos by (simp add: S_def)
  from Suc [of "Suc k"] have h0: "0 \<le> h" and hT: "of_int h / S \<le> T"
    by (simp_all add: h_def T_def S_def)
  have x0: "0 \<le> of_int X / S / real k" using assms(1) S by simp
  have q0: "0 \<le> (X * h) div (int k * fixScale)"
    using assms(1) h0 fixScale_pos by (simp add: div_int_pos_iff)
  have "real_of_int ((X * h) div (int k * fixScale))
          \<le> of_int (X * h) / of_int (int k * fixScale)"
    by (metis floor_divide_of_int_eq of_int_floor_le)
  also have "\<dots> = of_int X / S / real k * (of_int h / S) * S"
    using S by (simp add: S_def field_simps)
  also have "\<dots> \<le> of_int X / S / real k * T * S"
  proof -
    have "of_int X / S / real k * (of_int h / S) \<le> of_int X / S / real k * T"
      using hT x0 by (rule mult_left_mono)
    then show ?thesis using S by (simp only: mult_le_cancel_right_pos)
  qed
  finally have "(S + real_of_int ((X * h) div (int k * fixScale))) / S
                  \<le> 1 + of_int X / S / real k * T"
    using S by (simp add: field_simps)
  then show ?case
    using q0 fixScale_pos by (simp add: h_def T_def S_def)
qed

lemma hornerInt_upper:
  assumes "0 \<le> X" "0 \<le> b"
  shows "0 \<le> hornerInt 1 k j X b
     \<and> taylorH k j (of_int X / of_int fixScale) (of_int b / of_int fixScale)
         \<le> of_int (hornerInt 1 k j X b) / of_int fixScale"
proof (induction j arbitrary: k)
  case 0
  show ?case using assms by simp
next
  case (Suc j)
  define h where "h = hornerInt 1 (Suc k) j X b"
  define T where "T = taylorH (Suc k) j (of_int X / of_int fixScale) (of_int b / of_int fixScale)"
  define S :: real where "S = of_int fixScale"
  have S: "0 < S" using fixScale_pos by (simp add: S_def)
  from Suc [of "Suc k"] have h0: "0 \<le> h" and hT: "T \<le> of_int h / S"
    by (simp_all add: h_def T_def S_def)
  have x0: "0 \<le> of_int X / S / real k" using assms(1) S by simp
  have q0: "0 \<le> (X * h) div (int k * fixScale)"
    using assms(1) h0 fixScale_pos by (simp add: div_int_pos_iff)
  have "of_int X / S / real k * T * S \<le> of_int X / S / real k * (of_int h / S) * S"
  proof -
    have "of_int X / S / real k * T \<le> of_int X / S / real k * (of_int h / S)"
      using hT x0 by (rule mult_left_mono)
    then show ?thesis using S by (simp only: mult_le_cancel_right_pos)
  qed
  also have "\<dots> = of_int (X * h) / of_int (int k * fixScale)"
    using S by (simp add: S_def field_simps)
  also have "\<dots> \<le> real_of_int ((X * h) div (int k * fixScale)) + 1"
    by (metis floor_divide_of_int_eq real_of_int_floor_add_one_ge)
  finally have "1 + of_int X / S / real k * T
                  \<le> (S + real_of_int ((X * h) div (int k * fixScale)) + 1) / S"
    using S by (simp add: field_simps)
  then show ?case
    using q0 fixScale_pos by (simp add: h_def T_def S_def)
qed

lemma hornerInt_numeral:
  "hornerInt r k (numeral n) X b
     = fixScale + (X * hornerInt r (Suc k) (pred_numeral n) X b) div (int k * fixScale) + r"
  by (simp add: numeral_eq_Suc)

lemma exp_4_le: "exp (4 :: real) \<le> 81"
proof -
  have "exp (4 :: real) = exp 1 ^ 4"
    using exp_of_nat_mult [of 4 "1 :: real"] by simp
  also have "\<dots> \<le> 3 ^ 4"
    by (rule power_mono) (simp_all add: exp_le)
  finally show ?thesis by simp
qed

lemma exp_upper_fixed:
  assumes "0 \<le> X" "X \<le> 4 * fixScale"
  shows "exp (real_of_int X / of_int fixScale)
           \<le> of_int (hornerInt 1 1 n X (81 * fixScale)) / of_int fixScale"
proof -
  let ?x = "real_of_int X / of_int fixScale"
  have x0: "0 \<le> ?x" using assms(1) fixScale_pos by simp
  have "?x \<le> 4" using assms(2) fixScale_pos by (simp add: field_simps)
  then have "exp ?x \<le> exp 4" by simp
  then have "exp ?x \<le> 81" using exp_4_le by linarith
  with x0 have "exp ?x \<le> taylorH 1 n ?x 81" by (rule exp_le_taylorH)
  also have "\<dots> = taylorH 1 n ?x (of_int (81 * fixScale) / of_int fixScale)"
    using fixScale_pos by simp
  also have "\<dots> \<le> of_int (hornerInt 1 1 n X (81 * fixScale)) / of_int fixScale"
    using hornerInt_upper [of X "81 * fixScale" 1 n] assms(1) fixScale_pos by simp
  finally show ?thesis .
qed

lemma exp_lower_fixed:
  assumes "0 \<le> X"
  shows "of_int (hornerInt 0 1 n X 0) / of_int fixScale
           \<le> exp (real_of_int X / of_int fixScale)"
proof -
  let ?x = "real_of_int X / of_int fixScale"
  have x0: "0 \<le> ?x" using assms(1) fixScale_pos by simp
  have "of_int (hornerInt 0 1 n X 0) / of_int fixScale \<le> taylorH 1 n ?x 0"
    using hornerInt_lower [of X 0 1 n] assms by simp
  also have "\<dots> \<le> exp ?x" using x0 by (rule exp_ge_taylorH)
  finally show ?thesis .
qed

subsection \<open>The conversions at 20.5 Hz, and their error in general\<close>

lemma ln10_lower: "42475197918399869003 / 18446744073709551616 \<le> ln (10 :: real)"
proof -
  have "hornerInt 1 1 32 42475197918399869003 (81 * fixScale) \<le> 10 * fixScale"
    by (simp add: hornerInt_numeral fixScale_def)
  then have "real_of_int (hornerInt 1 1 32 42475197918399869003 (81 * fixScale))
               \<le> real_of_int (10 * fixScale)"
    by (simp only: of_int_le_iff)
  then have "real_of_int (hornerInt 1 1 32 42475197918399869003 (81 * fixScale))
               / of_int fixScale \<le> 10"
    using fixScale_pos by (simp add: field_simps)
  moreover have "exp (real_of_int 42475197918399869003 / of_int fixScale)
      \<le> of_int (hornerInt 1 1 32 42475197918399869003 (81 * fixScale)) / of_int fixScale"
    by (rule exp_upper_fixed) (simp_all add: fixScale_def)
  ultimately have "exp (real_of_int 42475197918399869003 / of_int fixScale) \<le> 10"
    by (rule order_trans [rotated])
  then have "real_of_int 42475197918399869003 / of_int fixScale \<le> ln (10 :: real)"
    by (simp add: ln_ge_iff)
  then show ?thesis by (simp add: fixScale_def)
qed

lemma ln10_upper: "ln (10 :: real) \<le> 42475197918399869036 / 18446744073709551616"
proof -
  have "10 * fixScale \<le> hornerInt 0 1 32 42475197918399869036 0"
    by (simp add: hornerInt_numeral fixScale_def)
  then have "real_of_int (10 * fixScale)
               \<le> real_of_int (hornerInt 0 1 32 42475197918399869036 0)"
    by (simp only: of_int_le_iff)
  then have "10 \<le> real_of_int (hornerInt 0 1 32 42475197918399869036 0) / of_int fixScale"
    using fixScale_pos by (simp add: field_simps)
  moreover have "of_int (hornerInt 0 1 32 42475197918399869036 0) / of_int fixScale
      \<le> exp (real_of_int 42475197918399869036 / of_int fixScale)"
    by (rule exp_lower_fixed) simp
  ultimately have "10 \<le> exp (real_of_int 42475197918399869036 / of_int fixScale)"
    by (rule order_trans)
  then have "ln (10 :: real) \<le> ln (exp (real_of_int 42475197918399869036 / of_int fixScale))"
    by (simp only: ln_le_cancel_iff exp_gt_zero zero_less_numeral)
  then show ?thesis by (simp add: fixScale_def)
qed

lemma ln10_pos: "0 < ln (10 :: real)"
  by simp

lemma log10_upper_example:
  "log 10 (41 / 2 :: real) \<le> 24197587762595858431 / 18446744073709551616"
proof -
  have "41 * fixScale \<le> 2 * hornerInt 0 1 32 55717004868568366501 0"
    by (simp add: hornerInt_numeral fixScale_def)
  then have "real_of_int (41 * fixScale)
               \<le> real_of_int (2 * hornerInt 0 1 32 55717004868568366501 0)"
    by (simp only: of_int_le_iff)
  then have "41 / 2 \<le> real_of_int (hornerInt 0 1 32 55717004868568366501 0) / of_int fixScale"
    using fixScale_pos by (simp add: field_simps)
  moreover have "of_int (hornerInt 0 1 32 55717004868568366501 0) / of_int fixScale
      \<le> exp (real_of_int 55717004868568366501 / of_int fixScale)"
    by (rule exp_lower_fixed) simp
  ultimately have "41 / 2 \<le> exp (real_of_int 55717004868568366501 / of_int fixScale)"
    by (rule order_trans)
  then have "ln (41 / 2 :: real)
               \<le> ln (exp (real_of_int 55717004868568366501 / of_int fixScale))"
    by (simp only: ln_le_cancel_iff exp_gt_zero)
  then have a: "ln (41 / 2 :: real) \<le> 55717004868568366501 / 18446744073709551616"
    by (simp add: fixScale_def)
  have "(55717004868568366501 / 18446744073709551616 :: real)
          \<le> 24197587762595858431 / 18446744073709551616
              * (42475197918399869003 / 18446744073709551616)"
    by simp
  also have "\<dots> \<le> 24197587762595858431 / 18446744073709551616 * ln (10 :: real)"
    by (rule mult_left_mono [OF ln10_lower]) simp
  finally have "ln (41 / 2 :: real)
      \<le> 24197587762595858431 / 18446744073709551616 * ln (10 :: real)"
    using a by linarith
  then show ?thesis
    using ln10_pos by (simp add: log_def field_simps del: ln_gt_zero_iff)
qed

lemma double_log10_example:
  "double (24197587762595858431 / 18446744073709551616)
     = 738451774981563 / 562949953421312"
proof -
  have "double (24197587762595858431 / 18446744073709551616)
      = of_int (roundEven (24197587762595858431 / 18446744073709551616 / pow2 (0 - 52)))
          * pow2 (0 - 52)"
    by (rule double_eval) (simp_all add: pow2_def)
  also have "\<dots> = 738451774981563 / 562949953421312"
    by (simp add: pow2_def roundEven_def round_def)
  finally show ?thesis .
qed

lemma powr_upper_example:
  "(10 :: real) powr (738451774981563 / 562949953421312)
     \<le> 5770237022568447 / 281474976710656"
proof -
  have "281474976710656 * hornerInt 1 1 32 55717004868568361832 (81 * fixScale)
          \<le> 5770237022568447 * fixScale"
    by (simp add: hornerInt_numeral fixScale_def)
  then have "real_of_int (281474976710656
                * hornerInt 1 1 32 55717004868568361832 (81 * fixScale))
               \<le> real_of_int (5770237022568447 * fixScale)"
    by (simp only: of_int_le_iff)
  then have "real_of_int (hornerInt 1 1 32 55717004868568361832 (81 * fixScale))
               / of_int fixScale \<le> 5770237022568447 / 281474976710656"
    using fixScale_pos by (simp add: field_simps)
  moreover have "exp (real_of_int 55717004868568361832 / of_int fixScale)
      \<le> of_int (hornerInt 1 1 32 55717004868568361832 (81 * fixScale)) / of_int fixScale"
    by (rule exp_upper_fixed) (simp_all add: fixScale_def)
  ultimately have b: "exp (real_of_int 55717004868568361832 / of_int fixScale)
      \<le> 5770237022568447 / 281474976710656"
    by (rule order_trans [rotated])
  have "738451774981563 / 562949953421312 * ln (10 :: real)
          \<le> 738451774981563 / 562949953421312
              * (42475197918399869036 / 18446744073709551616)"
    by (rule mult_left_mono [OF ln10_upper]) simp
  also have "\<dots> \<le> real_of_int 55717004868568361832 / of_int fixScale"
    by (simp add: fixScale_def)
  finally have "exp (738451774981563 / 562949953421312 * ln (10 :: real))
      \<le> exp (real_of_int 55717004868568361832 / of_int fixScale)"
    by (simp only: exp_le_cancel_iff)
  then have "exp (738451774981563 / 562949953421312 * ln (10 :: real))
      \<le> 5770237022568447 / 281474976710656"
    using b by (rule order_trans)
  moreover have "(10 :: real) powr a = exp (a * ln 10)" for a
    by (simp add: powr_def)
  ultimately show ?thesis by (simp only:)
qed

lemma powr_le_by_power:
  assumes "0 < n" "0 \<le> b" "(x powr (real m / real n)) ^ n \<le> b ^ n"
  shows "(x :: real) powr (real m / real n) \<le> b"
proof (rule ccontr)
  assume "\<not> x powr (real m / real n) \<le> b"
  then have "b < x powr (real m / real n)" by simp
  with assms(2) have "b ^ n < (x powr (real m / real n)) ^ n"
    using assms(1) by (intro power_strict_mono) simp_all
  with assms(3) show False by simp
qed

lemma powr_ge_by_power:
  assumes "0 < n" "b ^ n \<le> (x powr (real m / real n)) ^ n"
  shows "b \<le> (x :: real) powr (real m / real n)"
proof (rule ccontr)
  assume "\<not> b \<le> x powr (real m / real n)"
  then have "x powr (real m / real n) < b" by simp
  then have "(x powr (real m / real n)) ^ n < b ^ n"
    using assms(1) by (intro power_strict_mono) simp_all
  with assms(2) show False by simp
qed

lemma powr_ratio_power:
  "0 < n \<Longrightarrow> 0 < x \<Longrightarrow> ((x :: real) powr (real m / real n)) ^ n = x ^ m"
  by (simp add: powr_power powr_realpow)

lemma log10_lower_example: "13 / 10 \<le> log 10 (41 / 2 :: real)"
proof -
  have "((10 :: real) powr (real 13 / real 10)) ^ 10 = 10 ^ 13"
    by (rule powr_ratio_power) simp_all
  also have "\<dots> \<le> (41 / 2) ^ 10" by (simp add: power_divide)
  finally have "(10 :: real) powr (real 13 / real 10) \<le> 41 / 2"
    by (intro powr_le_by_power) simp_all
  then have p: "(10 :: real) powr (13 / 10) \<le> 41 / 2" by simp
  have "(13 / 10 \<le> log 10 (41 / 2 :: real)) = ((10 :: real) powr (13 / 10) \<le> 41 / 2)"
    by (rule le_log_iff) simp_all
  with p show ?thesis by blast
qed

lemma powr_lower_example: "39 / 2 \<le> (10 :: real) powr (31 / 24)"
proof -
  have "((39 / 2) :: real) ^ 24 \<le> 10 ^ 31" by (simp add: power_divide)
  also have "\<dots> = ((10 :: real) powr (real 31 / real 24)) ^ 24"
    by (rule powr_ratio_power [symmetric]) simp_all
  finally have "39 / 2 \<le> (10 :: real) powr (real 31 / real 24)"
    by (intro powr_ge_by_power) simp_all
  then show ?thesis by simp
qed

lemma double_ge_example: "31 / 24 \<le> double (13 / 10)"
proof -
  have "\<bar>double (13 / 10) - 13 / 10\<bar> \<le> \<bar>13 / 10 :: real\<bar> / 9007199254740992"
    using double_error [of "13 / 10"] by linarith
  then show ?thesis by linarith
qed

lemma double_dyadic_example:
  "double (5770237022568447 / 281474976710656) = 5770237022568447 / 281474976710656"
  using double_fix [of 5770237022568447 "- 48"] by (simp add: pow2_def)

lemma double_39_halves: "double (39 / 2) = 39 / 2"
  using double_fix [of 39 "- 1"] by (simp add: pow2_def)

lemma linearToLog_example:
  "31 / 24 \<le> linearToLog (41 / 2)
   \<and> linearToLog (41 / 2) \<le> 738451774981563 / 562949953421312"
proof -
  have l: "linearToLog (41 / 2) = double (log 10 (41 / 2))"
    by (simp add: linearToLog_def)
  have "double (13 / 10) \<le> double (log 10 (41 / 2))"
    using log10_lower_example by (rule double_mono)
  then have lo: "31 / 24 \<le> double (log 10 (41 / 2))"
    using double_ge_example by linarith
  have "double (log 10 (41 / 2)) \<le> double (24197587762595858431 / 18446744073709551616)"
    using log10_upper_example by (rule double_mono)
  then have "double (log 10 (41 / 2)) \<le> 738451774981563 / 562949953421312"
    by (simp only: double_log10_example)
  with lo l show ?thesis by simp
qed

lemma abs_exp_minus_one:
  assumes "\<bar>t\<bar> \<le> 1"
  shows "\<bar>exp t - 1\<bar> \<le> 2 * \<bar>t :: real\<bar>"
proof (cases "0 \<le> t")
  case True
  with assms have "exp t \<le> 1 + t + t\<^sup>2" by (intro exp_bound) simp_all
  moreover have "t\<^sup>2 \<le> t" using True assms by (simp add: power2_eq_square mult_left_le)
  moreover have "1 \<le> exp t" using True by simp
  ultimately show ?thesis using True by simp
next
  case False
  then have "exp t \<le> 1" by simp
  moreover have "1 + t \<le> exp t" by (rule exp_ge_add_one_self)
  ultimately show ?thesis using False by linarith
qed

lemma log10_range:
  assumes "20 \<le> f" "f \<le> 20000"
  shows "1 \<le> log 10 f" "log 10 f \<le> 5"
proof -
  have "(1 \<le> log 10 f) = (10 powr 1 \<le> f)"
    using assms(1) by (intro le_log_iff) simp_all
  with assms(1) show "1 \<le> log 10 f" by simp
  have "(log 10 f \<le> 5) = (f \<le> 10 powr 5)"
    using assms(1) by (intro log_le_iff) simp_all
  with assms(2) show "log 10 f \<le> 5" by simp
qed

lemma roundtrip_error:
  assumes "20 \<le> f" "f \<le> 20000"
  shows "\<bar>double (10 powr linearToLog f) - f\<bar> < 1 / 2 ^ 30"
proof -
  define x where "x = log 10 f"
  define d where "d = double x - x"
  define t where "t = d * ln 10"
  define y where "y = 10 powr double x"
  have f0: "0 < f" using assms(1) by simp
  have x1: "1 \<le> x" and x5: "x \<le> 5"
    using log10_range [OF assms] by (simp_all add: x_def)
  have l: "linearToLog f = double x"
    using assms by (simp add: linearToLog_def x_def)
  have "\<bar>double x - x\<bar> \<le> \<bar>x\<bar> / 9007199254740992"
    using double_error [of x] x1 by linarith
  then have d: "\<bar>d\<bar> \<le> 5 / 9007199254740992"
    using x1 x5 by (simp add: d_def)
  have ln3: "ln (10 :: real) \<le> 3"
    using ln10_upper by simp
  have "\<bar>t\<bar> = \<bar>d\<bar> * ln 10" by (simp add: t_def abs_mult)
  also have "\<dots> \<le> 5 / 9007199254740992 * 3"
    using d ln3 by (intro mult_mono) simp_all
  finally have t: "\<bar>t\<bar> \<le> 15 / 9007199254740992" by simp
  then have "\<bar>exp t - 1\<bar> \<le> 2 * \<bar>t\<bar>" by (intro abs_exp_minus_one) simp
  with t have e: "\<bar>exp t - 1\<bar> \<le> 30 / 9007199254740992" by simp
  have "10 powr x = f"
    using f0 by (simp add: x_def)
  moreover have "double x = x + d" by (simp add: d_def)
  moreover have "(10 :: real) powr d = exp t" by (simp add: powr_def t_def)
  ultimately have y: "y = f * exp t"
    by (simp add: y_def powr_add)
  have "y - f = f * (exp t - 1)" by (simp add: y right_diff_distrib)
  then have "\<bar>y - f\<bar> = f * \<bar>exp t - 1\<bar>"
    using f0 by (simp add: abs_mult)
  also have "\<dots> \<le> 20000 * (30 / 9007199254740992)"
    using assms e f0 by (intro mult_mono) simp_all
  finally have yf: "\<bar>y - f\<bar> \<le> 600000 / 9007199254740992" by simp
  have y0: "0 < y" by (simp add: y_def)
  from yf assms(2) have y2: "y \<le> 20001" by linarith
  have "\<bar>double y - y\<bar> \<le> \<bar>y\<bar> / 9007199254740992"
    using double_error [of y] y0 by linarith
  with y0 y2 have "\<bar>double y - y\<bar> \<le> 20001 / 9007199254740992" by simp
  with yf have "\<bar>double y - f\<bar> \<le> 620001 / 9007199254740992" by linarith
  then have "\<bar>double y - f\<bar> < 1 / 2 ^ 30" by simp
  then show ?thesis by (simp only: l y_def)
qed

text \<open>
  The claim as it was stated, for every frequency from 20 to 20000 Hz, fails at 20.5 Hz.
  \<open>log10 20.5\<close> lies below the middle between \<open>5907614199852504 / 2^52\<close> and the next
  double, so \<open>Math.log10\<close> returns at most \<open>5907614199852504 / 2^52\<close>; ten to that
  power is \<open>20.4999999999999953...\<close>, below the double \<open>20.5 - 2^-48\<close>, so \<open>Math.pow\<close>
  returns at most \<open>20.5 - 2^-48\<close> (and at least 19.5), and \<open>Math.round\<close> makes it 20,
  whereas \<open>Math.round(20.5)\<close> is 21.
\<close>

theorem roundtrip_half_counterexample:
  "(20 :: real) \<le> 41 / 2 \<and> (41 / 2 :: real) \<le> 20000
   \<and> logToLinear (linearToLog (41 / 2)) = 20
   \<and> of_int (round (41 / 2 :: real)) = (21 :: real)"
proof -
  define L where "L = linearToLog (41 / 2)"
  from linearToLog_example have lo: "31 / 24 \<le> L"
    and hi: "L \<le> 738451774981563 / 562949953421312"
    by (simp_all add: L_def)
  have "(10 :: real) powr (31 / 24) \<le> 10 powr L"
    using lo by (intro powr_mono) simp_all
  then have "39 / 2 \<le> 10 powr L" using powr_lower_example by linarith
  then have "double (39 / 2) \<le> double (10 powr L)" by (rule double_mono)
  then have a: "39 / 2 \<le> double (10 powr L)" by (simp only: double_39_halves)
  have "(10 :: real) powr L \<le> 10 powr (738451774981563 / 562949953421312)"
    using hi by (intro powr_mono) simp_all
  then have "10 powr L \<le> 5770237022568447 / 281474976710656"
    using powr_upper_example by linarith
  then have "double (10 powr L) \<le> double (5770237022568447 / 281474976710656)"
    by (rule double_mono)
  then have b: "double (10 powr L) \<le> 5770237022568447 / 281474976710656"
    by (simp only: double_dyadic_example)
  have "round (double (10 powr L)) = 20"
    using a b by (intro round_unique) simp_all
  then have "logToLinear L = 20" by (simp add: logToLinear_def)
  moreover have "round (41 / 2 :: real) = 21" by (rule round_unique) simp_all
  ultimately show ?thesis by (simp add: L_def)
qed

text \<open>
  C9 (as amended). For every frequency \<open>f\<close> from 20 to 20000 Hz that is at least
  \<open>2^-30\<close> away from the middle between two whole numbers, converting to the log10 value
  and back gives \<open>f\<close> rounded to the nearest integer; in particular every whole number
  of Hz from 20 to 20000 is recovered exactly.
\<close>

theorem log_linear_roundtrip_off_ties:
  "(20 \<le> f \<and> f \<le> 20000 \<and> \<bar>f - of_int (round f)\<bar> \<le> 1 / 2 - 1 / 2 ^ 30
      \<longrightarrow> logToLinear (linearToLog f) = of_int (round f))
   \<and> (20 \<le> n \<and> n \<le> 20000 \<longrightarrow> logToLinear (linearToLog (of_int n)) = of_int n)"
proof (intro conjI impI)
  assume h: "20 \<le> f \<and> f \<le> 20000 \<and> \<bar>f - of_int (round f)\<bar> \<le> 1 / 2 - 1 / 2 ^ 30"
  then have "\<bar>double (10 powr linearToLog f) - f\<bar> < 1 / 2 ^ 30"
    by (intro roundtrip_error) simp_all
  with h have "\<bar>double (10 powr linearToLog f) - of_int (round f)\<bar> < 1 / 2"
    by linarith
  then have "round (double (10 powr linearToLog f)) = round f"
    by (rule round_unique')
  then show "logToLinear (linearToLog f) = of_int (round f)"
    by (simp add: logToLinear_def)
next
  assume h: "20 \<le> n \<and> n \<le> 20000"
  then have "\<bar>double (10 powr linearToLog (of_int n)) - of_int n\<bar> < 1 / 2 ^ 30"
    by (intro roundtrip_error) simp_all
  then have "\<bar>double (10 powr linearToLog (of_int n)) - of_int n\<bar> < 1 / 2"
    by simp
  then have "round (double (10 powr linearToLog (of_int n))) = n"
    by (rule round_unique')
  then show "logToLinear (linearToLog (of_int n)) = of_int n"
    by (simp add: logToLinear_def)
qed

theorem log_linear_roundtrip_off_ties_witness:
  "logToLinear (linearToLog (81 / 4)) = 20 \<and> logToLinear (linearToLog 440) = 440"
proof -
  have r: "round (81 / 4 :: real) = 20" by (rule round_unique) simp_all
  have "20 \<le> (81 / 4 :: real) \<and> (81 / 4 :: real) \<le> 20000
      \<and> \<bar>81 / 4 - of_int (round (81 / 4 :: real))\<bar> \<le> (1 / 2 - 1 / 2 ^ 30 :: real)"
    by (simp add: r)
  moreover have "20 \<le> (440 :: int) \<and> (440 :: int) \<le> 20000" by simp
  ultimately show ?thesis
    using log_linear_roundtrip_off_ties [of "81 / 4" 440] r by simp
qed

section \<open>Facts about session aggregation\<close>

lemma foldl_addFrequency:
  "bandCount (foldl (addFrequency s) st fs b)
     = bandCount (st b) + length (filter (\<lambda>f. getFrequencyRange f = b) fs)
   \<and> bandTotal (foldl (addFrequency s) st fs b)
     = bandTotal (st b) + s * real (length (filter (\<lambda>f. getFrequencyRange f = b) fs))"
  by (induction fs arbitrary: st) (simp_all add: addFrequency_def Let_def algebra_simps)

lemma foldl_addQuestion_count:
  "bandCount (foldl addQuestion st qs b)
     = bandCount (st b) + length (filter (\<lambda>f. getFrequencyRange f = b) (concat (map freqsOf qs)))"
  by (induction qs arbitrary: st) (simp_all add: addQuestion_def foldl_addFrequency)

lemma sum_list_attributed_one:
  "sum_list (map (\<lambda>_. s) (filter P fs)) = s * real (length (filter P fs))"
  by (simp add: sum_list_triv)

lemma foldl_addQuestion_total:
  "bandTotal (foldl addQuestion st qs b) = bandTotal (st b) + sum_list (attributed b qs)"
  by (induction qs arbitrary: st)
    (simp_all add: addQuestion_def foldl_addFrequency attributed_def sum_list_triv)

lemma length_attributed:
  "length (attributed b qs) = length (filter (\<lambda>f. getFrequencyRange f = b) (concat (map freqsOf qs)))"
  by (induction qs) (simp_all add: attributed_def)

lemma rangeStats_count:
  "bandCount (rangeStats qs b)
     = length (filter (\<lambda>f. getFrequencyRange f = b) (concat (map freqsOf qs)))"
  by (simp add: rangeStats_def foldl_addQuestion_count)

lemma rangeStats_total: "bandTotal (rangeStats qs b) = sum_list (attributed b qs)"
  by (simp add: rangeStats_def foldl_addQuestion_total)

lemma UNIV_rangeName: "UNIV = {UltraLow, Low, Mid, HighMid, High}"
proof -
  have "b \<in> {UltraLow, Low, Mid, HighMid, High}" for b
    by (cases b) simp_all
  then show ?thesis by blast
qed

lemma band_partition:
  "(\<Sum>b\<in>{UltraLow, Low, Mid, HighMid, High}. length (filter (\<lambda>f. getFrequencyRange f = b) fs))
     = length fs"
proof (induction fs)
  case Nil
  show ?case by simp
next
  case (Cons f fs)
  have "(\<Sum>b\<in>{UltraLow, Low, Mid, HighMid, High}.
            length (filter (\<lambda>f. getFrequencyRange f = b) (f # fs)))
        = (\<Sum>b\<in>{UltraLow, Low, Mid, HighMid, High}.
            length (filter (\<lambda>f. getFrequencyRange f = b) fs)) + 1"
    by (cases "getFrequencyRange f") simp_all
  with Cons show ?case by simp
qed

text \<open>
  C10. \<open>getFrequencyRange\<close> classifies every number, and a boundary frequency goes to
  the higher band: 100 Hz is low, 500 Hz is mid, 2000 Hz is highMid and 8000 Hz is high.
  In the session aggregation every frequency occurrence is counted in exactly one band:
  the count of a band is the number of occurrences classified into it, and the five
  counts add up to the number of occurrences.
\<close>

theorem band_classifier_boundaries:
  "getFrequencyRange 100 = Low \<and> getFrequencyRange 500 = Mid
   \<and> getFrequencyRange 2000 = HighMid \<and> getFrequencyRange 8000 = High
   \<and> (getFrequencyRange f = UltraLow) = (f < 100)
   \<and> (getFrequencyRange f = Low) = (100 \<le> f \<and> f < 500)
   \<and> (getFrequencyRange f = Mid) = (500 \<le> f \<and> f < 2000)
   \<and> (getFrequencyRange f = HighMid) = (2000 \<le> f \<and> f < 8000)
   \<and> (getFrequencyRange f = High) = (8000 \<le> f)
   \<and> bandCount (rangeStats questions b)
       = length (filter (\<lambda>f. getFrequencyRange f = b) (concat (map freqsOf questions)))
   \<and> (\<Sum>b\<in>{UltraLow, Low, Mid, HighMid, High}. bandCount (rangeStats questions b))
       = length (concat (map freqsOf questions))"
  by (simp add: rangeStats_count band_partition del: One_nat_def)
     (simp add: getFrequencyRange_def)

theorem band_classifier_boundaries_witness:
  "bandCount (rangeStats [\<lparr> q_actualFreq = Array [100, 2000, 99], q_score = Some 90,
                 q_avgError = Some 2, q_error = None \<rparr>] Low) = 1
   \<and> bandCount (rangeStats [\<lparr> q_actualFreq = Array [100, 2000, 99], q_score = Some 90,
                 q_avgError = Some 2, q_error = None \<rparr>] Mid) = 0"
  using band_classifier_boundaries [of 100 "[\<lparr> q_actualFreq = Array [100, 2000, 99], q_score = Some 90,
                 q_avgError = Some 2, q_error = None \<rparr>]"]
  by (simp add: freqsOf_def getFrequencyRange_def)

text \<open>
  C4. For every list of answer records, \<open>calculateSessionScore\<close> returns as
  \<open>totalScore\<close> the plain sum of the records' scores (a missing score counts 0), and
  for each of the five bands the mean of the scores attributed to it divided by 100,
  where a record's score is attributed once for every frequency of its \<open>actualFreq\<close>
  that lies in the band; a band with no attributed score reports 0. Two records
  scoring 80 at 50 Hz and 60 at 1500 Hz give total 140, ultraLow 0.8, mid 0.6 and 0
  for the other bands.
\<close>

theorem session_score_aggregation:
  "totalScore (calculateSessionScore questions) = sum_list (map scoreOr0 questions)
   \<and> rangeAccuracy (calculateSessionScore questions) b
       = (if attributed b questions = [] then 0
          else sum_list (attributed b questions) / real (length (attributed b questions)) / 100)
   \<and> (let r = calculateSessionScore
                 [\<lparr> q_actualFreq = Array [50], q_score = Some 80, q_avgError = e1, q_error = e2 \<rparr>,
                  \<lparr> q_actualFreq = Array [1500], q_score = Some 60, q_avgError = e3, q_error = e4 \<rparr>]
       in totalScore r = 140
          \<and> rangeAccuracy r UltraLow = 0.8 \<and> rangeAccuracy r Mid = 0.6
          \<and> rangeAccuracy r Low = 0 \<and> rangeAccuracy r HighMid = 0 \<and> rangeAccuracy r High = 0)"
proof (intro conjI)
  show "totalScore (calculateSessionScore questions) = sum_list (map scoreOr0 questions)"
  proof -
    have "foldl (\<lambda>sum q. sum + scoreOr0 q) s questions = s + sum_list (map scoreOr0 questions)" for s
      by (induction questions arbitrary: s) simp_all
    then show ?thesis by (simp add: calculateSessionScore_def Let_def)
  qed
next
  show "rangeAccuracy (calculateSessionScore questions) b
       = (if attributed b questions = [] then 0
          else sum_list (attributed b questions) / real (length (attributed b questions)) / 100)"
    by (simp add: calculateSessionScore_def Let_def rangeStats_total rangeStats_count
        length_attributed [symmetric])
next
  show "let r = calculateSessionScore
                 [\<lparr> q_actualFreq = Array [50], q_score = Some 80, q_avgError = e1, q_error = e2 \<rparr>,
                  \<lparr> q_actualFreq = Array [1500], q_score = Some 60, q_avgError = e3, q_error = e4 \<rparr>]
       in totalScore r = 140
          \<and> rangeAccuracy r UltraLow = 0.8 \<and> rangeAccuracy r Mid = 0.6
          \<and> rangeAccuracy r Low = 0 \<and> rangeAccuracy r HighMid = 0 \<and> rangeAccuracy r High = 0"
    by (simp add: calculateSessionScore_def Let_def rangeStats_def addQuestion_def
        addFrequency_def freqsOf_def scoreOr0_def orElse_def truthy_def getFrequencyRange_def)
qed

theorem session_score_aggregation_witness:
  "(let r = calculateSessionScore
              [\<lparr> q_actualFreq = Array [300, 1000, 3000], q_score = Some 90,
                 q_avgError = Some 2, q_error = None \<rparr>,
               \<lparr> q_actualFreq = Scalar 440, q_score = None,
                 q_avgError = None, q_error = None \<rparr>]
    in totalScore r = 90 \<and> rangeAccuracy r Low = 0.45 \<and> rangeAccuracy r Mid = 0.9
       \<and> rangeAccuracy r HighMid = 0.9 \<and> rangeAccuracy r High = 0)"
  using session_score_aggregation
    [of "[\<lparr> q_actualFreq = Array [300, 1000, 3000], q_score = Some 90,
                 q_avgError = Some 2, q_error = None \<rparr>,
          \<lparr> q_actualFreq = Scalar 440, q_score = None,
                 q_avgError = None, q_error = None \<rparr>]"]
  by (simp add: Let_def attributed_def freqsOf_def scoreOr0_def orElse_def truthy_def
      getFrequencyRange_def)

section \<open>The claim about the loudness corrector\<close>

lemma findBracket_sorted:
  "sorted_wrt (<) pts \<Longrightarrow> Suc i < length pts \<Longrightarrow> pts ! i \<le> f \<Longrightarrow> f \<le> pts ! Suc i \<Longrightarrow>
   findBracket f pts = Some (pts ! i, pts ! Suc i)
   \<or> (0 < i \<and> f = pts ! i \<and> findBracket f pts = Some (pts ! (i - 1), pts ! i))"
proof (induction f pts arbitrary: i rule: findBracket.induct)
  case (1 f a b rest)
  show ?case
  proof (cases "a \<le> f \<and> f \<le> b")
    case True
    show ?thesis
    proof (cases i)
      case 0
      with True show ?thesis by simp
    next
      case (Suc i')
      have le: "b \<le> (b # rest) ! i'"
      proof (cases i')
        case 0 then show ?thesis by simp
      next
        case (Suc k)
        with 1(2,3) \<open>i = Suc i'\<close> have "b < rest ! k" by auto
        with Suc show ?thesis by simp
      qed
      from 1(4) Suc have "(b # rest) ! i' \<le> f" by simp
      with le True have fb: "f = b" "(b # rest) ! i' = b" by auto
      have "i' = 0"
      proof (rule ccontr)
        assume "i' \<noteq> 0"
        then obtain k where k: "i' = Suc k" by (cases i') auto
        with 1(2,3) \<open>i = Suc i'\<close> have "b < rest ! k" by auto
        with fb k show False by simp
      qed
      with Suc True fb show ?thesis by simp
    qed
  next
    case False
    then have fb: "findBracket f (a # b # rest) = findBracket f (b # rest)" by auto
    show ?thesis
    proof (cases i)
      case 0
      with 1(4,5) False show ?thesis by simp
    next
      case (Suc i')
      from 1(2) have s: "sorted_wrt (<) (b # rest)" by simp
      from 1(3) Suc have l: "Suc i' < length (b # rest)" by simp
      from 1(4,5) Suc have b1: "(b # rest) ! i' \<le> f" "f \<le> (b # rest) ! Suc i'" by simp_all
      from 1(1) [OF False s l b1]
      have "findBracket f (b # rest) = Some ((b # rest) ! i', (b # rest) ! Suc i')
            \<or> (0 < i' \<and> f = (b # rest) ! i'
                \<and> findBracket f (b # rest) = Some ((b # rest) ! (i' - 1), (b # rest) ! i'))" .
      then show ?thesis
      proof
        assume "findBracket f (b # rest) = Some ((b # rest) ! i', (b # rest) ! Suc i')"
        with fb Suc show ?thesis by simp
      next
        assume h: "0 < i' \<and> f = (b # rest) ! i'
                \<and> findBracket f (b # rest) = Some ((b # rest) ! (i' - 1), (b # rest) ! i')"
        then obtain k where k: "i' = Suc k" by (cases i') auto
        with h fb Suc show ?thesis by auto
      qed
    qed
  qed
qed simp_all

lemma sorted_wrt_less_sort:
  "distinct (xs :: real list) \<Longrightarrow> sorted_wrt (<) (sort xs)"
  by (simp add: strict_sorted_iff)

lemma findBracket_Some_mem:
  "findBracket f pts = Some (a, b) \<Longrightarrow> a \<in> set pts \<and> b \<in> set pts \<and> a \<le> f \<and> f \<le> b"
  by (induction f pts rule: findBracket.induct) (auto split: if_splits)

lemma map_of_the:
  "k \<in> set (map fst curve) \<Longrightarrow> map_of curve k = Some (the (map_of curve k))"
  by (metis map_of_eq_None_iff option.exhaust_sel set_map)

lemma interpolate_inside:
  assumes wf: "distinct (map fst curve)" "\<forall>k\<in>set (map fst curve). 0 < k"
    and i: "Suc i < length (sort (map fst curve))"
    and lo: "sort (map fst curve) ! i \<le> f" and hi: "f \<le> sort (map fst curve) ! Suc i"
    and strict: "hd (sort (map fst curve)) < f" "f < last (sort (map fst curve))"
  shows "interpolateCorrection f curve =
     Some (lerp (the (map_of curve (sort (map fst curve) ! i)))
                (the (map_of curve (sort (map fst curve) ! Suc i)))
                ((log 10 f - log 10 (sort (map fst curve) ! i))
                  / (log 10 (sort (map fst curve) ! Suc i) - log 10 (sort (map fst curve) ! i))))"
proof -
  let ?pts = "sort (map fst curve)"
  let ?dB = "\<lambda>k. the (map_of curve k)"
  have ne: "?pts \<noteq> []" using i by (metis list.size(3) not_less0)
  have ss: "sorted_wrt (<) ?pts" using wf(1) by (rule sorted_wrt_less_sort)
  have mem: "k \<in> set ?pts \<Longrightarrow> 0 < k \<and> map_of curve k = Some (?dB k)" for k
    using wf(2) map_of_the [of k curve] by auto
  have ilt: "?pts ! i < ?pts ! Suc i"
    using ss i by (simp add: sorted_wrt_nth_less)
  have mi: "?pts ! i \<in> set ?pts" "?pts ! Suc i \<in> set ?pts"
    using i by (simp_all del: set_sort)
  have general: "interpolateCorrection f curve =
      Some (lerp (?dB a) (?dB b) ((log 10 f - log 10 a) / (log 10 b - log 10 a)))"
    if fb: "findBracket f ?pts = Some (a, b)" and ab: "a < b" for a b
  proof -
    from findBracket_Some_mem [OF fb] have m: "a \<in> set ?pts" "b \<in> set ?pts" "a \<le> f" "f \<le> b"
      by simp_all
    from mem [OF m(1)] mem [OF m(2)] have p: "0 < a" "0 < b"
      "map_of curve a = Some (?dB a)" "map_of curve b = Some (?dB b)" by simp_all
    from p(1) m(3) have fpos: "0 < f" by simp
    have "log 10 a < log 10 b"
      using ab p(1) p(2) log_less_cancel_iff [of 10 a b] by simp
    then have "log 10 b - log 10 a \<noteq> 0" by simp
    moreover from p obtain da db where "map_of curve a = Some da" "map_of curve b = Some db"
      by blast
    ultimately show ?thesis
      using ne strict fb p(1) p(2) fpos
      by (simp add: interpolateCorrection_def Let_def log10_def)
  qed
  from findBracket_sorted [OF ss i lo hi]
  show ?thesis
  proof
    assume "findBracket f ?pts = Some (?pts ! i, ?pts ! Suc i)"
    from general [OF this ilt] show ?thesis .
  next
    assume h: "0 < i \<and> f = ?pts ! i \<and> findBracket f ?pts = Some (?pts ! (i - 1), ?pts ! i)"
    then obtain k where k: "i = Suc k" by (cases i) auto
    from ss i k have klt: "?pts ! k < ?pts ! i" by (simp add: sorted_wrt_nth_less)
    from h k have fb: "findBracket f ?pts = Some (?pts ! k, ?pts ! i)" by auto
    have "?pts ! k \<in> set ?pts" using i k by (simp del: set_sort)
    from mem [OF this] mem [OF mi(1)] have pos: "0 < ?pts ! k" "0 < ?pts ! i" by simp_all
    have "log 10 (?pts ! k) < log 10 (?pts ! i)"
      using klt pos log_less_cancel_iff [of 10 "?pts ! k" "?pts ! i"] by simp
    then have d: "log 10 (?pts ! i) - log 10 (?pts ! k) \<noteq> 0" by simp
    from general [OF fb klt] h d
    have "interpolateCorrection f curve = Some (?dB (?pts ! i))"
      by (simp add: lerp_def)
    moreover from h have "lerp (?dB (?pts ! i)) (?dB (?pts ! Suc i))
        ((log 10 f - log 10 (?pts ! i)) / (log 10 (?pts ! Suc i) - log 10 (?pts ! i)))
        = ?dB (?pts ! i)"
      by (simp add: lerp_def)
    ultimately show ?thesis by simp
  qed
qed

lemma sort_nonempty: "xs \<noteq> [] \<Longrightarrow> sort (xs :: real list) \<noteq> []"
  by (metis length_sort list.size(3) length_0_conv)

lemma interpolate_below:
  assumes "curve \<noteq> []" "f \<le> hd (sort (map fst curve))"
  shows "interpolateCorrection f curve
           = Some (the (map_of curve (hd (sort (map fst curve)))))"
proof -
  let ?pts = "sort (map fst curve)"
  have ne: "?pts \<noteq> []" using assms(1) by (intro sort_nonempty) simp
  then have "hd ?pts \<in> set ?pts" by (rule hd_in_set)
  then have "hd ?pts \<in> set (map fst curve)" by simp
  from map_of_the [OF this] ne assms(2) show ?thesis
    by (simp add: interpolateCorrection_def Let_def)
qed

lemma interpolate_above:
  assumes "curve \<noteq> []" "last (sort (map fst curve)) \<le> f"
  shows "interpolateCorrection f curve
           = Some (the (map_of curve (last (sort (map fst curve)))))"
proof -
  let ?pts = "sort (map fst curve)"
  have ne: "?pts \<noteq> []" using assms(1) by (intro sort_nonempty) simp
  then have hm: "hd ?pts \<in> set ?pts" and lm: "last ?pts \<in> set ?pts"
    by (rule hd_in_set, rule last_in_set)
  then have h: "hd ?pts \<in> set (map fst curve)" and l: "last ?pts \<in> set (map fst curve)"
    by simp_all
  have hl: "hd ?pts \<le> last ?pts"
  proof -
    have "sorted ?pts" by simp
    with ne show ?thesis
      by (metis hd_conv_nth last_conv_nth sorted_nth_mono diff_less length_greater_0_conv
          less_one le0)
  qed
  show ?thesis
  proof (cases "f \<le> hd ?pts")
    case True
    with hl assms(2) have "hd ?pts = last ?pts" by simp
    with interpolate_below [OF assms(1) True] show ?thesis by simp
  next
    case False
    with map_of_the [OF l] ne assms(2) show ?thesis
      by (simp add: interpolateCorrection_def Let_def)
  qed
qed

text \<open>
  C5. \<open>getGain\<close> returns 1 when the mode is \<open>off\<close> (or \<open>null\<close>), when the curve data
  is not loaded, or when the data has no curve for the requested phon level. Otherwise,
  for a curve with at least one point and positive, distinct frequency points, it
  returns \<open>10 powr (dB / 20)\<close>, where \<open>dB\<close> is the value of the lowest point at or
  below the curve's domain, the value of the highest point at or above it, and between
  two neighbouring points \<open>lo\<close> and \<open>hi\<close> that bracket \<open>f\<close> the linear interpolation
  of their values at \<open>t = (log10 f - log10 lo) / (log10 hi - log10 lo)\<close>. Every case
  returns a number: nothing is raised.
\<close>

theorem getGain_interpolates:
  "(phon = Some ''off'' \<or> phon = None \<or> curves = None
      \<or> (\<exists>cs p. curves = Some cs \<and> phon = Some p \<and> cs (p @ ''_phon'') = None)
      \<longrightarrow> getGain curves f phon = Some 1)
   \<and> (curves = Some cs \<and> phon = Some p \<and> p \<noteq> ''off'' \<and> cs (p @ ''_phon'') = Some curve
       \<and> curve \<noteq> [] \<and> distinct (map fst curve) \<and> (\<forall>k\<in>set (map fst curve). 0 < k)
      \<longrightarrow>
       (let pts = sort (map fst curve);
            dB = (\<lambda>k. the (map_of curve k))
        in (f \<le> hd pts \<longrightarrow> getGain curves f phon = Some (10 powr (dB (hd pts) / 20)))
         \<and> (last pts \<le> f \<longrightarrow> getGain curves f phon = Some (10 powr (dB (last pts) / 20)))
         \<and> (\<forall>i. Suc i < length pts \<and> pts ! i \<le> f \<and> f \<le> pts ! Suc i \<longrightarrow>
               getGain curves f phon =
                 Some (10 powr ((dB (pts ! i) + (dB (pts ! Suc i) - dB (pts ! i))
                        * ((log 10 f - log 10 (pts ! i))
                             / (log 10 (pts ! Suc i) - log 10 (pts ! i)))) / 20)))))"
proof (intro conjI impI)
  assume "phon = Some ''off'' \<or> phon = None \<or> curves = None
      \<or> (\<exists>cs p. curves = Some cs \<and> phon = Some p \<and> cs (p @ ''_phon'') = None)"
  then show "getGain curves f phon = Some 1"
    by (auto simp: getGain_def split: option.splits)
next
  assume h: "curves = Some cs \<and> phon = Some p \<and> p \<noteq> ''off'' \<and> cs (p @ ''_phon'') = Some curve
       \<and> curve \<noteq> [] \<and> distinct (map fst curve) \<and> (\<forall>k\<in>set (map fst curve). 0 < k)"
  let ?pts = "sort (map fst curve)"
  let ?dB = "\<lambda>k. the (map_of curve k)"
  from h have g: "getGain curves f phon = map_option dbToGain (interpolateCorrection f curve)"
    by (simp add: getGain_def)
  from h have ne: "curve \<noteq> []" and d: "distinct (map fst curve)"
    and pos: "\<forall>k\<in>set (map fst curve). 0 < k" by simp_all
  have ss: "sorted_wrt (<) ?pts" using d by (rule sorted_wrt_less_sort)
  have below: "f \<le> hd ?pts \<Longrightarrow> getGain curves f phon = Some (10 powr (?dB (hd ?pts) / 20))"
    using interpolate_below [OF ne] g by (simp add: dbToGain_def)
  have above: "last ?pts \<le> f \<Longrightarrow> getGain curves f phon = Some (10 powr (?dB (last ?pts) / 20))"
    using interpolate_above [OF ne] g by (simp add: dbToGain_def)
  have inside: "getGain curves f phon =
                 Some (10 powr ((?dB (?pts ! i) + (?dB (?pts ! Suc i) - ?dB (?pts ! i))
                        * ((log 10 f - log 10 (?pts ! i))
                             / (log 10 (?pts ! Suc i) - log 10 (?pts ! i)))) / 20))"
    if i: "Suc i < length ?pts" and lo: "?pts ! i \<le> f" and hi: "f \<le> ?pts ! Suc i" for i
  proof -
    have pne: "?pts \<noteq> []" using i by (metis list.size(3) not_less0)
    have ilt: "?pts ! i < ?pts ! Suc i" using ss i by (simp add: sorted_wrt_nth_less)
    have m: "?pts ! i \<in> set (map fst curve)" "?pts ! Suc i \<in> set (map fst curve)"
      using i by (metis nth_mem set_sort Suc_lessD)+
    with pos have p: "0 < ?pts ! i" "0 < ?pts ! Suc i" by blast+
    have ll: "log 10 (?pts ! i) < log 10 (?pts ! Suc i)"
      using ilt p log_less_cancel_iff [of 10 "?pts ! i" "?pts ! Suc i"] by simp
    have h0: "hd ?pts = ?pts ! 0" using pne by (rule hd_conv_nth)
    have l0: "last ?pts = ?pts ! (length ?pts - 1)" using pne by (rule last_conv_nth)
    consider (lo) "f \<le> hd ?pts" | (hi) "last ?pts \<le> f" "hd ?pts < f"
      | (mid) "hd ?pts < f" "f < last ?pts"
      by linarith
    then show ?thesis
    proof cases
      case lo
      have "i = 0"
      proof (rule ccontr)
        assume "i \<noteq> 0"
        then have "?pts ! 0 < ?pts ! i" using ss i by (simp add: sorted_wrt_nth_less)
        with lo \<open>?pts ! i \<le> f\<close> h0 show False by simp
      qed
      with lo \<open>?pts ! i \<le> f\<close> h0 have "f = ?pts ! i" "hd ?pts = ?pts ! i" by simp_all
      with below [OF lo] show ?thesis by simp
    next
      case hi
      have "Suc i = length ?pts - 1"
      proof (rule ccontr)
        assume "Suc i \<noteq> length ?pts - 1"
        with i have "Suc i < length ?pts - 1" by simp
        then have "?pts ! Suc i < ?pts ! (length ?pts - 1)"
          using ss by (simp add: sorted_wrt_nth_less)
        with hi(1) \<open>f \<le> ?pts ! Suc i\<close> l0 show False by simp
      qed
      with hi(1) \<open>f \<le> ?pts ! Suc i\<close> l0
      have e: "f = ?pts ! Suc i" "last ?pts = ?pts ! Suc i" by simp_all
      from ll have "log 10 (?pts ! Suc i) - log 10 (?pts ! i) \<noteq> 0" by simp
      with e above [OF hi(1)] show ?thesis by simp
    next
      case mid
      from interpolate_inside [OF d pos i lo hi mid] g show ?thesis
        by (simp add: dbToGain_def lerp_def)
    qed
  qed
  show "let pts = sort (map fst curve);
            dB = (\<lambda>k. the (map_of curve k))
        in (f \<le> hd pts \<longrightarrow> getGain curves f phon = Some (10 powr (dB (hd pts) / 20)))
         \<and> (last pts \<le> f \<longrightarrow> getGain curves f phon = Some (10 powr (dB (last pts) / 20)))
         \<and> (\<forall>i. Suc i < length pts \<and> pts ! i \<le> f \<and> f \<le> pts ! Suc i \<longrightarrow>
               getGain curves f phon =
                 Some (10 powr ((dB (pts ! i) + (dB (pts ! Suc i) - dB (pts ! i))
                        * ((log 10 f - log 10 (pts ! i))
                             / (log 10 (pts ! Suc i) - log 10 (pts ! i)))) / 20)))"
    unfolding Let_def using below above inside by blast
qed

theorem getGain_interpolates_witness:
  "getGain (Some [''60_phon'' \<mapsto> [(100, - 10), (1000, 0)]]) 100 (Some ''60'')
     = Some (10 powr (- 10 / 20))
   \<and> getGain (Some [''60_phon'' \<mapsto> [(100, - 10), (1000, 0)]]) 10 (Some ''60'')
     = Some (10 powr (- 10 / 20))
   \<and> getGain (Some [''60_phon'' \<mapsto> [(100, - 10), (1000, 0)]]) 550 (Some ''60'')
     = Some (10 powr ((- 10 + (0 - (- 10))
                        * ((log 10 550 - log 10 100) / (log 10 1000 - log 10 100))) / 20))
   \<and> getGain (Some [''60_phon'' \<mapsto> [(100, - 10), (1000, 0)]]) 550 (Some ''off'') = Some 1"
proof -
  let ?cs = "[''60_phon'' \<mapsto> [(100, - 10), (1000, 0 :: real)]] :: string \<rightharpoonup> curve"
  let ?curve = "[(100, - 10), (1000, 0)] :: curve"
  have wf: "Some ?cs = Some ?cs \<and> Some ''60'' = Some ''60'' \<and> ''60'' \<noteq> ''off''
      \<and> ?cs (''60'' @ ''_phon'') = Some ?curve
      \<and> ?curve \<noteq> [] \<and> distinct (map fst ?curve) \<and> (\<forall>k\<in>set (map fst ?curve). 0 < k)"
    by simp
  have s: "sort (map fst ?curve) = [100, 1000]" by simp
  note T = getGain_interpolates [of _ "Some ?cs" _ ?cs "''60''" ?curve]
  from T [of "Some ''60''" 100] wf s
  have a: "getGain (Some ?cs) 100 (Some ''60'') = Some (10 powr (- 10 / 20))"
    by (simp add: Let_def)
  from T [of "Some ''60''" 10] wf s
  have b: "getGain (Some ?cs) 10 (Some ''60'') = Some (10 powr (- 10 / 20))"
    by (simp add: Let_def)
  from T [of "Some ''60''" 550] wf s
  have "\<forall>i. Suc i < length [100, 1000 :: real] \<and> [100, 1000] ! i \<le> (550 :: real)
          \<and> 550 \<le> [100, 1000 :: real] ! Suc i \<longrightarrow>
        getGain (Some ?cs) 550 (Some ''60'') =
          Some (10 powr ((the (map_of ?curve ([100, 1000] ! i))
                  + (the (map_of ?curve ([100, 1000] ! Suc i)) - the (map_of ?curve ([100, 1000] ! i)))
                    * ((log 10 550 - log 10 ([100, 1000] ! i))
                        / (log 10 ([100, 1000] ! Suc i) - log 10 ([100, 1000] ! i)))) / 20))"
    by (simp add: Let_def)
  from this [rule_format, of 0]
  have c: "getGain (Some ?cs) 550 (Some ''60'')
     = Some (10 powr ((- 10 + (0 - (- 10))
                        * ((log 10 550 - log 10 100) / (log 10 1000 - log 10 100))) / 20))"
    by simp
  from T [of "Some ''off''" 550]
  have d: "getGain (Some ?cs) 550 (Some ''off'') = Some 1" by simp
  from a b c d show ?thesis by blast
qed

section \<open>Facts about question generation\<close>

lemma randomLogFreq_bounds:
  assumes r: "0 \<le> r" "r < 1" and mn: "0 < mn" "mn \<le> mx" and ints: "mn \<in> \<int>" "mx \<in> \<int>"
  shows "mn \<le> randomLogFreq mn mx r \<and> randomLogFreq mn mx r \<le> mx"
proof -
  let ?e = "log 10 mn + r * (log 10 mx - log 10 mn)"
  from mn have mx: "0 < mx" by simp
  have ll: "log 10 mn \<le> log 10 mx" using mn mx by simp
  have lo: "log 10 mn \<le> ?e" using r ll by (simp add: mult_nonneg_nonneg)
  have "r * (log 10 mx - log 10 mn) \<le> 1 * (log 10 mx - log 10 mn)"
    using r ll by (intro mult_right_mono) simp_all
  then have hi: "?e \<le> log 10 mx" by simp
  have "10 powr log 10 mn \<le> 10 powr ?e" using lo by simp
  then have a: "mn \<le> 10 powr ?e" using mn by simp
  have "10 powr ?e \<le> 10 powr log 10 mx" using hi by simp
  then have b: "10 powr ?e \<le> mx" using mx by simp
  from ints obtain a' b' where ab: "mn = of_int a'" "mx = of_int b'"
    by (auto elim!: Ints_cases)
  from a have "round mn \<le> round (10 powr ?e)" by (rule round_mono)
  then have "a' \<le> round (10 powr ?e)" using ab by simp
  then have A: "mn \<le> of_int (round (10 powr ?e))" using ab by simp
  from b have "round (10 powr ?e) \<le> round mx" by (rule round_mono)
  then have "round (10 powr ?e) \<le> b'" using ab by simp
  then have B: "of_int (round (10 powr ?e)) \<le> mx" using ab by simp
  from A B show ?thesis by (simp add: randomLogFreq_def Let_def)
qed

lemma FREQUENCY_RANGES_wf:
  "(name, fr) \<in> set FREQUENCY_RANGES \<Longrightarrow>
     0 < rangeMin fr \<and> rangeMin fr \<le> rangeMax fr \<and> rangeMin fr \<in> \<int> \<and> rangeMax fr \<in> \<int>
     \<and> 20 \<le> rangeMin fr \<and> rangeMax fr \<le> 20000"
  by (auto simp: FREQUENCY_RANGES_def)

lemma pickRange_contract:
  assumes "0 \<le> r" "r < 1"
  shows "\<exists>name fr. pickRange r = Some fr \<and> (name, fr) \<in> set FREQUENCY_RANGES"
proof -
  have len: "length FREQUENCY_RANGES = 7" by (simp add: FREQUENCY_RANGES_def)
  have d: "distinct (map fst FREQUENCY_RANGES)" by (simp add: FREQUENCY_RANGES_def)
  let ?i = "\<lfloor>r * 7\<rfloor>"
  have i0: "0 \<le> ?i" using assms by simp
  have "r * 7 < 7" using assms by simp
  then have i7: "?i < 7" by (simp add: floor_less_iff)
  with i0 have "nat ?i < 7" by linarith
  then have n7: "nat ?i < length FREQUENCY_RANGES" using len by simp
  then have mem: "FREQUENCY_RANGES ! nat ?i \<in> set FREQUENCY_RANGES" by (rule nth_mem)
  then have "map_of FREQUENCY_RANGES (fst (FREQUENCY_RANGES ! nat ?i))
             = Some (snd (FREQUENCY_RANGES ! nat ?i))"
    using d by (simp add: map_of_eq_Some_iff)
  then have "pickRange r = Some (snd (FREQUENCY_RANGES ! nat ?i))"
    using i0 n7 len by (simp add: pickRange_def Let_def)
  with mem show ?thesis by (metis prod.collapse)
qed

lemma pickRange_half: "pickRange (1 / 2) = Some \<lparr> rangeMin = 500, rangeMax = 2000, rangeCount = 3 \<rparr>"
proof -
  have "\<lfloor>7 / 2 :: real\<rfloor> = 3" by (rule floor_unique) simp_all
  then show ?thesis by (simp add: pickRange_def FREQUENCY_RANGES_def Let_def)
qed

lemma pickRange_zero: "pickRange 0 = Some \<lparr> rangeMin = 20, rangeMax = 80, rangeCount = 1 \<rparr>"
  by (simp add: pickRange_def FREQUENCY_RANGES_def Let_def)

lemma randomLogFreq_zero: "0 < mn \<Longrightarrow> mn \<in> \<int> \<Longrightarrow> randomLogFreq mn mx 0 = mn"
  by (auto simp: randomLogFreq_def Let_def elim!: Ints_cases)

lemma generateQuestions_medium_example:
  "generateQuestions (\<lambda>k. if k = 2 then 1 / 2 else 0) ''medium'' 1
     = Inr [\<lparr> frequencies = [500, 20], questionStereo = True, waveform = ''sine'',
               duration = 10, questionEqualLoudness = ''off'' \<rparr>]"
  by (simp add: generateQuestions_def DIFFICULTY_def generateQuestion_def pickRange_half
      pickRange_zero retryLoop.simps randomLogFreq_zero accepted_def tooClose_def shuffle_def
      Let_def numeral_2_eq_2)

lemma retryLoop_in_range:
  assumes "randomContract rnd" "(name, fr) \<in> set FREQUENCY_RANGES"
  shows "rangeMin fr \<le> fst (retryLoop rnd fr config fs used attempts pos)
         \<and> fst (retryLoop rnd fr config fs used attempts pos) \<le> rangeMax fr"
  using assms
proof (induction rnd fr config fs used attempts pos rule: retryLoop.induct)
  case (1 rnd fr config fs used attempts pos)
  let ?c = "randomLogFreq (rangeMin fr) (rangeMax fr) (rnd pos)"
  from 1(2) have r: "0 \<le> rnd pos" "rnd pos < 1" by (simp_all add: randomContract_def)
  from FREQUENCY_RANGES_wf [OF 1(3)] r
  have b: "rangeMin fr \<le> ?c \<and> ?c \<le> rangeMax fr"
    by (intro randomLogFreq_bounds) simp_all
  show ?case
  proof (cases "accepted config fs used ?c \<or> \<not> attempts + 1 < 100")
    case True
    then have "fst (retryLoop rnd fr config fs used attempts pos) = ?c"
      by (subst retryLoop.simps) (auto simp: Let_def)
    with b show ?thesis by simp
  next
    case False
    then have "retryLoop rnd fr config fs used attempts pos
               = retryLoop rnd fr config fs used (attempts + 1) (pos + 1)"
      by (subst retryLoop.simps) (simp add: Let_def)
    with 1(1) [OF refl _ _ 1(2) 1(3)] False show ?thesis by simp
  qed
qed

lemma retryLoop_accepted:
  "attempts < 100 \<Longrightarrow>
   \<exists>k<100 - attempts. accepted config fs used
        (randomLogFreq (rangeMin fr) (rangeMax fr) (rnd (pos + k))) \<Longrightarrow>
   accepted config fs used (fst (retryLoop rnd fr config fs used attempts pos))"
proof (induction rnd fr config fs used attempts pos rule: retryLoop.induct)
  case (1 rnd fr config fs used attempts pos)
  let ?c = "\<lambda>p. randomLogFreq (rangeMin fr) (rangeMax fr) (rnd p)"
  show ?case
  proof (cases "accepted config fs used (?c pos)")
    case True
    then have "fst (retryLoop rnd fr config fs used attempts pos) = ?c pos"
      by (subst retryLoop.simps) (simp add: Let_def)
    with True show ?thesis by simp
  next
    case False
    from 1(3) obtain k where k: "k < 100 - attempts" "accepted config fs used (?c (pos + k))"
      by blast
    with False have "k \<noteq> 0" by (cases k) auto
    then obtain k' where k': "k = Suc k'" by (cases k) auto
    with k have lt: "attempts + 1 < 100" by simp
    from k k' have ex: "\<exists>j<100 - (attempts + 1). accepted config fs used (?c (pos + 1 + j))"
      by (intro exI [of _ k']) simp
    from False lt have "retryLoop rnd fr config fs used attempts pos
               = retryLoop rnd fr config fs used (attempts + 1) (pos + 1)"
      by (subst retryLoop.simps) (simp add: Let_def)
    with 1(1) [OF refl False lt lt ex] show ?thesis by simp
  qed
qed

lemma retryLoop_exhausted:
  "attempts < 100 \<Longrightarrow>
   \<forall>k<100 - attempts. \<not> accepted config fs used
        (randomLogFreq (rangeMin fr) (rangeMax fr) (rnd (pos + k))) \<Longrightarrow>
   retryLoop rnd fr config fs used attempts pos
     = (randomLogFreq (rangeMin fr) (rangeMax fr) (rnd (pos + (99 - attempts))),
        pos + (100 - attempts))"
proof (induction rnd fr config fs used attempts pos rule: retryLoop.induct)
  case (1 rnd fr config fs used attempts pos)
  let ?c = "\<lambda>p. randomLogFreq (rangeMin fr) (rangeMax fr) (rnd p)"
  from 1(2) 1(3) have rej: "\<not> accepted config fs used (?c pos)"
    by (metis add.right_neutral zero_less_diff)
  show ?case
  proof (cases "attempts + 1 < 100")
    case True
    have all: "\<forall>k<100 - (attempts + 1). \<not> accepted config fs used (?c (pos + 1 + k))"
    proof (intro allI impI)
      fix k assume "k < 100 - (attempts + 1)"
      then have "Suc k < 100 - attempts" by simp
      with 1(3) have "\<not> accepted config fs used (?c (pos + Suc k))" by blast
      then show "\<not> accepted config fs used (?c (pos + 1 + k))" by simp
    qed
    from rej True have "retryLoop rnd fr config fs used attempts pos
               = retryLoop rnd fr config fs used (attempts + 1) (pos + 1)"
      by (subst retryLoop.simps) (simp add: Let_def)
    also from 1(1) [OF refl rej True True all]
    have "\<dots> = (?c (pos + 1 + (99 - (attempts + 1))), pos + 1 + (100 - (attempts + 1)))" .
    also have "\<dots> = (?c (pos + (99 - attempts)), pos + (100 - attempts))"
    proof -
      from True have "pos + 1 + (99 - (attempts + 1)) = pos + (99 - attempts)"
        "pos + 1 + (100 - (attempts + 1)) = pos + (100 - attempts)" by linarith+
      then show ?thesis by (simp only:)
    qed
    finally show ?thesis .
  next
    case False
    with 1(2) have a: "attempts = 99" by simp
    from rej False have "retryLoop rnd fr config fs used attempts pos = (?c pos, pos + 1)"
      by (subst retryLoop.simps) (simp add: Let_def)
    with a show ?thesis by simp
  qed
qed

lemma retriesExhausted_first:
  "accepted config fs used (randomLogFreq (rangeMin fr) (rangeMax fr) (rnd pos))
     \<Longrightarrow> \<not> retriesExhausted rnd fr config fs used pos"
  unfolding retriesExhausted_def by (auto intro: exI [of _ 0])

lemma inSomeBand_I:
  "(name, fr) \<in> set FREQUENCY_RANGES \<Longrightarrow> rangeMin fr \<le> f \<Longrightarrow> f \<le> rangeMax fr \<Longrightarrow> inSomeBand f"
  unfolding inSomeBand_def by blast

lemma inSomeBand_audible: "inSomeBand f \<Longrightarrow> 20 \<le> f \<and> f \<le> 20000"
  unfolding inSomeBand_def using FREQUENCY_RANGES_wf by fastforce

lemma generateFrequencies_shape:
  assumes c: "randomContract rnd"
  shows "\<exists>new pos'. generateFrequencies rnd config n fs used pos
            = Inr (fs @ new, used \<union> Some ` set new, pos')
          \<and> length new = n \<and> (\<forall>f\<in>set new. inSomeBand f)"
proof (induction n arbitrary: fs used pos)
  case 0
  show ?case by (intro exI [of _ "[]"]) simp
next
  case (Suc n)
  from c have "0 \<le> rnd pos" "rnd pos < 1" by (simp_all add: randomContract_def)
  from pickRange_contract [OF this] obtain name fr
    where fr: "pickRange (rnd pos) = Some fr" "(name, fr) \<in> set FREQUENCY_RANGES" by blast
  obtain f p1 where rl: "retryLoop rnd fr config fs used 0 (pos + 1) = (f, p1)"
    by (cases "retryLoop rnd fr config fs used 0 (pos + 1)")
  from retryLoop_in_range [OF c fr(2), of config fs used 0 "pos + 1"] rl
  have "rangeMin fr \<le> f" "f \<le> rangeMax fr" by simp_all
  with fr(2) have band: "inSomeBand f" by (rule inSomeBand_I)
  from Suc [of "fs @ [f]" "insert (Some f) used" p1] obtain new pos'
    where n: "generateFrequencies rnd config n (fs @ [f]) (insert (Some f) used) p1
                = Inr ((fs @ [f]) @ new, insert (Some f) used \<union> Some ` set new, pos')"
      "length new = n" "\<forall>f\<in>set new. inSomeBand f" by blast
  have "generateFrequencies rnd config (Suc n) fs used pos
          = Inr (fs @ (f # new), used \<union> Some ` set (f # new), pos')"
    using fr(1) rl n(1) by simp
  with n(2,3) band show ?case
    by (intro exI [of _ "f # new"] exI [of _ pos']) simp
qed

lemma tooClose_gap:
  "\<not> tooClose config fs f \<Longrightarrow> g \<in> set fs \<Longrightarrow>
     minFreqGap config \<le> max f g / min f g \<and> minFreqGap config \<le> max g f / min g f"
  unfolding tooClose_def by (auto simp: max.commute min.commute not_less)

lemma pairwiseGap_snoc:
  assumes "pairwiseGap config fs" "\<not> tooClose config fs f"
  shows "pairwiseGap config (fs @ [f])"
  unfolding pairwiseGap_def
proof (intro ballI impI)
  fix a b assume ab: "a \<in> set (fs @ [f])" "b \<in> set (fs @ [f])" "a \<noteq> b"
  show "minFreqGap config \<le> max a b / min a b"
  proof (cases "a = f")
    case True
    with ab have "b \<in> set fs" by auto
    from tooClose_gap [OF assms(2) this] True show ?thesis by simp
  next
    case False
    with ab have a: "a \<in> set fs" by auto
    show ?thesis
    proof (cases "b = f")
      case True
      from tooClose_gap [OF assms(2) a] True show ?thesis by simp
    next
      case False
      with ab have "b \<in> set fs" by auto
      with a ab(3) assms(1) show ?thesis unfolding pairwiseGap_def by blast
    qed
  qed
qed

lemma generateFrequencies_gap:
  assumes c: "randomContract rnd"
  shows "generateFrequencies rnd config n fs used pos = Inr (fs @ new, used', pos') \<Longrightarrow>
         \<not> slotExhausted rnd config n fs used pos \<Longrightarrow>
         distinct fs \<Longrightarrow> pairwiseGap config fs \<Longrightarrow> Some ` set fs \<subseteq> used \<Longrightarrow>
         distinct (fs @ new) \<and> pairwiseGap config (fs @ new)
           \<and> (\<forall>f\<in>set new. Some f \<notin> used)"
proof (induction n arbitrary: fs used pos new)
  case 0
  then show ?case by simp
next
  case (Suc n)
  from c have "0 \<le> rnd pos" "rnd pos < 1" by (simp_all add: randomContract_def)
  from pickRange_contract [OF this] obtain name fr
    where fr: "pickRange (rnd pos) = Some fr" by blast
  obtain f p1 where rl: "retryLoop rnd fr config fs used 0 (pos + 1) = (f, p1)"
    by (cases "retryLoop rnd fr config fs used 0 (pos + 1)")
  from Suc(3) fr rl have ne: "\<not> retriesExhausted rnd fr config fs used (pos + 1)"
    and rest: "\<not> slotExhausted rnd config n (fs @ [f]) (insert (Some f) used) p1"
    by simp_all
  from ne have "\<exists>k<100 - 0. accepted config fs used
        (randomLogFreq (rangeMin fr) (rangeMax fr) (rnd (pos + 1 + k)))"
    by (simp add: retriesExhausted_def)
  from retryLoop_accepted [OF _ this] rl have acc: "accepted config fs used f" by simp
  then have nc: "\<not> tooClose config fs f" and fresh: "Some f \<notin> used"
    by (simp_all add: accepted_def)
  from fresh Suc(6) have nf: "f \<notin> set fs" by blast
  from Suc(2) fr rl
  have g: "generateFrequencies rnd config n (fs @ [f]) (insert (Some f) used) p1
            = Inr (fs @ new, used', pos')" by simp
  from generateFrequencies_shape [OF c, of config n "fs @ [f]" "insert (Some f) used" p1] g
  obtain new' where new': "fs @ new = (fs @ [f]) @ new'" by auto
  then have new: "new = f # new'" by simp
  from g new' have g': "generateFrequencies rnd config n (fs @ [f]) (insert (Some f) used) p1
            = Inr ((fs @ [f]) @ new', used', pos')" by simp
  have d: "distinct (fs @ [f])" using Suc(4) nf by simp
  have p: "pairwiseGap config (fs @ [f])" using Suc(5) nc by (rule pairwiseGap_snoc)
  have u: "Some ` set (fs @ [f]) \<subseteq> insert (Some f) used" using Suc(6) by auto
  from Suc(1) [OF g' rest d p u]
  have "distinct ((fs @ [f]) @ new')" "pairwiseGap config ((fs @ [f]) @ new')"
    "\<forall>x\<in>set new'. Some x \<notin> insert (Some f) used" by simp_all
  with new fresh show ?case by simp
qed

lemma pairwiseGap_set_cong:
  "set fs = set gs \<Longrightarrow> pairwiseGap config fs = pairwiseGap config gs"
  by (simp add: pairwiseGap_def)

lemma generateQuestion_shape:
  assumes c: "randomContract rnd"
  shows "\<exists>q pos'. generateQuestion rnd config used pos
            = Inr (q, used \<union> Some ` set (frequencies q), pos')
          \<and> length (frequencies q) = freqCount config
          \<and> (\<forall>f\<in>set (frequencies q). inSomeBand f)"
proof -
  from generateFrequencies_shape [OF c, of config "freqCount config" "[]" used pos]
  obtain new p1 where g: "generateFrequencies rnd config (freqCount config) [] used pos
            = Inr (new, used \<union> Some ` set new, p1)"
    "length new = freqCount config" "\<forall>f\<in>set new. inSomeBand f" by auto
  then show ?thesis
    by (auto simp: generateQuestion_def Let_def)
qed

lemma generateQuestion_gap:
  assumes c: "randomContract rnd"
    and g: "generateQuestion rnd config used pos = Inr (q, used', pos')"
    and ne: "\<not> questionExhausted rnd config used pos"
  shows "distinct (frequencies q) \<and> pairwiseGap config (frequencies q)
         \<and> (\<forall>f\<in>set (frequencies q). Some f \<notin> used)"
proof -
  from generateFrequencies_shape [OF c, of config "freqCount config" "[]" used pos]
  obtain new p1 where gf: "generateFrequencies rnd config (freqCount config) [] used pos
            = Inr ([] @ new, used \<union> Some ` set new, p1)" by auto
  from generateFrequencies_gap [OF c gf] ne
  have n: "distinct new" "pairwiseGap config new" "\<forall>f\<in>set new. Some f \<notin> used"
    by (simp_all add: questionExhausted_def pairwiseGap_def)
  from g gf have "frequencies q = sort new \<or> frequencies q = rev (sort new)"
    by (auto simp: generateQuestion_def Let_def split: if_splits)
  then have s: "set (frequencies q) = set new" and d: "distinct (frequencies q) = distinct new"
    by auto
  from pairwiseGap_set_cong [OF s] n d s show ?thesis by simp
qed

lemma generateLoop_shape:
  assumes c: "randomContract rnd"
  shows "\<exists>new used' pos'. generateLoop rnd config n qs used pos = Inr (qs @ new, used', pos')
          \<and> length new = n
          \<and> (\<forall>q\<in>set new. length (frequencies q) = freqCount config
                             \<and> (\<forall>f\<in>set (frequencies q). inSomeBand f))"
proof (induction n arbitrary: qs used pos)
  case 0
  show ?case by (intro exI [of _ "[]"]) simp
next
  case (Suc n)
  from generateQuestion_shape [OF c, of config used pos] obtain q p1
    where q: "generateQuestion rnd config used pos
                = Inr (q, used \<union> Some ` set (frequencies q), p1)"
      "length (frequencies q) = freqCount config" "\<forall>f\<in>set (frequencies q). inSomeBand f"
    by blast
  from Suc [of "qs @ [q]" "insert None (used \<union> Some ` set (frequencies q))" p1]
  obtain new used' pos' where n:
    "generateLoop rnd config n (qs @ [q]) (insert None (used \<union> Some ` set (frequencies q))) p1
       = Inr ((qs @ [q]) @ new, used', pos')"
    "length new = n"
    "\<forall>q\<in>set new. length (frequencies q) = freqCount config
                             \<and> (\<forall>f\<in>set (frequencies q). inSomeBand f)"
    by blast
  have "generateLoop rnd config (Suc n) qs used pos = Inr (qs @ (q # new), used', pos')"
    using q(1) n(1) by simp
  with q(2,3) n(2,3) show ?case
    by (intro exI [of _ "q # new"] exI [of _ used'] exI [of _ pos']) simp
qed

lemma generateLoop_fresh:
  assumes c: "randomContract rnd"
  shows "generateLoop rnd config n qs used pos = Inr (qs @ new, used', pos') \<Longrightarrow>
         \<forall>q\<in>set qs. Some ` set (frequencies q) \<subseteq> used \<Longrightarrow>
         length (exhaustionFlags rnd config n used pos) = n
         \<and> (\<forall>i<n. \<not> exhaustionFlags rnd config n used pos ! i \<longrightarrow>
                distinct (frequencies (new ! i)) \<and> pairwiseGap config (frequencies (new ! i))
                \<and> (\<forall>q\<in>set qs \<union> set (take i new).
                       set (frequencies q) \<inter> set (frequencies (new ! i)) = {}))"
proof (induction n arbitrary: qs used pos new)
  case 0
  then show ?case by simp
next
  case (Suc n)
  from generateQuestion_shape [OF c, of config used pos] obtain q p1
    where q: "generateQuestion rnd config used pos
                = Inr (q, used \<union> Some ` set (frequencies q), p1)" by blast
  let ?used1 = "insert None (used \<union> Some ` set (frequencies q))"
  from Suc(2) q have g: "generateLoop rnd config n (qs @ [q]) ?used1 p1
                          = Inr (qs @ new, used', pos')" by simp
  from generateLoop_shape [OF c, of config n "qs @ [q]" ?used1 p1] g
  obtain new' where "qs @ new = (qs @ [q]) @ new'" by auto
  then have new: "new = q # new'" by simp
  with g have g': "generateLoop rnd config n (qs @ [q]) ?used1 p1
                          = Inr ((qs @ [q]) @ new', used', pos')" by simp
  have inv: "\<forall>q'\<in>set (qs @ [q]). Some ` set (frequencies q') \<subseteq> ?used1"
    using Suc(3) by auto
  from Suc(1) [OF g' inv]
  have len: "length (exhaustionFlags rnd config n ?used1 p1) = n"
    and ih: "\<And>i. i < n \<Longrightarrow> \<not> exhaustionFlags rnd config n ?used1 p1 ! i \<Longrightarrow>
                distinct (frequencies (new' ! i)) \<and> pairwiseGap config (frequencies (new' ! i))
                \<and> (\<forall>q'\<in>set (qs @ [q]) \<union> set (take i new').
                       set (frequencies q') \<inter> set (frequencies (new' ! i)) = {})"
    by blast+
  have flags: "exhaustionFlags rnd config (Suc n) used pos
      = questionExhausted rnd config used pos # exhaustionFlags rnd config n ?used1 p1"
    using q by simp
  have "distinct (frequencies (new ! i)) \<and> pairwiseGap config (frequencies (new ! i))
          \<and> (\<forall>q\<in>set qs \<union> set (take i new).
                 set (frequencies q) \<inter> set (frequencies (new ! i)) = {})"
    if i: "i < Suc n" and nf: "\<not> exhaustionFlags rnd config (Suc n) used pos ! i" for i
    proof (cases i)
      case 0
      with nf flags have "\<not> questionExhausted rnd config used pos" by simp
      from generateQuestion_gap [OF c q this]
      have "distinct (frequencies q)" "pairwiseGap config (frequencies q)"
        "\<forall>f\<in>set (frequencies q). Some f \<notin> used" by simp_all
      moreover from this(3) Suc(3)
      have "\<forall>q'\<in>set qs. set (frequencies q') \<inter> set (frequencies q) = {}" by blast
      ultimately show ?thesis using 0 new by simp
    next
      case (Suc i')
      with i nf flags have "i' < n" "\<not> exhaustionFlags rnd config n ?used1 p1 ! i'"
        by simp_all
      from ih [OF this] Suc new show ?thesis by simp
    qed
  moreover have "length (exhaustionFlags rnd config (Suc n) used pos) = Suc n"
    using flags len by simp
  ultimately show ?case by blast
qed

lemma shuffleLoop_mset:
  assumes c: "randomContract rnd"
  shows "i < length xs \<Longrightarrow> mset (fst (shuffleLoop rnd i xs pos)) = mset xs"
proof (induction i arbitrary: xs pos)
  case 0
  show ?case by simp
next
  case (Suc i)
  let ?j = "nat \<lfloor>rnd pos * real (Suc i + 1)\<rfloor>"
  from c have r: "0 \<le> rnd pos" "rnd pos < 1" by (simp_all add: randomContract_def)
  then have "rnd pos * real (Suc i + 1) < real (Suc i + 1)" by simp
  then have "\<lfloor>rnd pos * real (Suc i + 1)\<rfloor> < int (Suc i + 1)"
    by (simp add: floor_less_iff)
  then have "?j < Suc i + 1" by linarith
  with Suc(2) have j: "?j < length xs" by simp
  let ?ys = "xs[Suc i := xs ! ?j, ?j := xs ! Suc i]"
  have m: "mset ?ys = mset xs" using j Suc(2) by (rule mset_swap)
  have "i < length ?ys" using Suc(2) by simp
  from Suc(1) [OF this, of "pos + 1"] m show ?case by (simp add: Let_def)
qed

lemma shuffle_mset:
  "randomContract rnd \<Longrightarrow> mset (fst (shuffle rnd xs pos)) = mset xs"
  by (cases xs) (simp_all add: shuffle_def shuffleLoop_mset)

text \<open>
  The relaxation at work: with a source of randomness that always returns 0 every
  candidate is 20 Hz, so the second easy question finds its only candidate used, runs
  through its 100 attempts and keeps 20 Hz all the same.
\<close>

lemma generateQuestions_exhausted_example:
  "generateQuestions (\<lambda>k. 0) ''easy'' 2
     = Inr [\<lparr> frequencies = [20], questionStereo = False, waveform = ''sine'',
               duration = 10, questionEqualLoudness = ''off'' \<rparr>,
            \<lparr> frequencies = [20], questionStereo = False, waveform = ''sine'',
               duration = 10, questionEqualLoudness = ''off'' \<rparr>]
   \<and> exhaustionFlags (\<lambda>k. 0)
         \<lparr> freqCount = 1, minFreqGap = 1.5, equalLoudness = ''off'', stereo = False \<rparr> 2 {} 0
       = [False, True]"
proof -
  let ?rnd = "\<lambda>k :: nat. 0 :: real"
  let ?cfg = "\<lparr> freqCount = 1, minFreqGap = 1.5, equalLoudness = ''off'', stereo = False \<rparr>"
  let ?fr = "\<lparr> rangeMin = 20, rangeMax = 80, rangeCount = 1 \<rparr>"
  let ?q = "\<lparr> frequencies = [20], questionStereo = False, waveform = ''sine'',
               duration = 10, questionEqualLoudness = ''off'' \<rparr>"
  have r1: "retryLoop ?rnd ?fr ?cfg [] {} 0 1 = (20, 2)"
    by (simp add: retryLoop.simps randomLogFreq_zero accepted_def tooClose_def Let_def)
  have e: "retriesExhausted ?rnd ?fr ?cfg [] {None, Some 20} 3"
    by (simp add: retriesExhausted_def accepted_def randomLogFreq_zero)
  then have "\<forall>k<100 - 0. \<not> accepted ?cfg [] {None, Some 20}
        (randomLogFreq (rangeMin ?fr) (rangeMax ?fr) (?rnd (3 + k)))"
    by (simp add: retriesExhausted_def)
  from retryLoop_exhausted [OF _ this]
  have r2: "retryLoop ?rnd ?fr ?cfg [] {None, Some 20} 0 3 = (20, 103)"
    by (simp add: randomLogFreq_zero)
  have ne: "\<not> retriesExhausted ?rnd ?fr ?cfg [] {} 1"
    by (rule retriesExhausted_first) (simp add: accepted_def tooClose_def randomLogFreq_zero)
  have q1: "generateQuestion ?rnd ?cfg {} 0 = Inr (?q, {Some 20}, 2)"
    using r1 by (simp add: generateQuestion_def pickRange_zero Let_def)
  have q2: "generateQuestion ?rnd ?cfg {None, Some 20} 2 = Inr (?q, {None, Some 20}, 103)"
    using r2 by (simp add: generateQuestion_def pickRange_zero Let_def insert_commute)
  have l: "generateLoop ?rnd ?cfg 2 [] {} 0 = Inr ([?q, ?q], {None, Some 20}, 103)"
    using q1 q2 by (simp add: numeral_2_eq_2)
  have A: "generateQuestions ?rnd ''easy'' 2 = Inr [?q, ?q]"
    using l by (simp add: generateQuestions_def DIFFICULTY_def shuffle_def Let_def)
  have B: "exhaustionFlags ?rnd ?cfg 2 {} 0 = [False, True]"
    using ne e q1 q2 r1 r2
    by (simp add: numeral_2_eq_2 numeral_3_eq_3 questionExhausted_def pickRange_zero)
  from A B show ?thesis by simp
qed

section \<open>The claims about question generation\<close>

text \<open>
  C2. For each of the difficulty names easy, medium and hard and every question count
  \<open>n\<close>, \<open>generateQuestions\<close> returns exactly \<open>n\<close> questions; each of them has as many
  frequencies as the profile's \<open>freqCount\<close>, and every frequency lies inside one of the
  7 generation bands and so between 20 and 20000 Hz. (The source of randomness is
  assumed to keep the contract of \<open>Math.random()\<close>.)
\<close>

theorem generateQuestions_batch:
  "randomContract rnd \<and> difficulty \<in> {''easy'', ''medium'', ''hard''} \<longrightarrow>
     (\<exists>qs config. DIFFICULTY difficulty = Some config
        \<and> generateQuestions rnd difficulty n = Inr qs
        \<and> length qs = n
        \<and> (\<forall>q\<in>set qs. length (frequencies q) = freqCount config
               \<and> (\<forall>f\<in>set (frequencies q). inSomeBand f \<and> 20 \<le> f \<and> f \<le> 20000)))"
proof
  assume h: "randomContract rnd \<and> difficulty \<in> {''easy'', ''medium'', ''hard''}"
  then have c: "randomContract rnd" by simp
  from h obtain config where cfg: "DIFFICULTY difficulty = Some config"
    by (auto simp: DIFFICULTY_def)
  from generateLoop_shape [OF c, of config n "[]" "{}" 0] obtain gs used pos
    where g: "generateLoop rnd config n [] {} 0 = Inr (gs, used, pos)" "length gs = n"
      "\<forall>q\<in>set gs. length (frequencies q) = freqCount config
                             \<and> (\<forall>f\<in>set (frequencies q). inSomeBand f)"
    by auto
  let ?qs = "fst (shuffle rnd gs pos)"
  have m: "mset ?qs = mset gs" using c by (rule shuffle_mset)
  then have s: "set ?qs = set gs" by (rule mset_eq_setD)
  from m have l: "length ?qs = length gs" by (rule mset_eq_length)
  have r: "generateQuestions rnd difficulty n = Inr ?qs"
    using cfg g(1) by (simp add: generateQuestions_def)
  from g(3) s have "\<forall>q\<in>set ?qs. length (frequencies q) = freqCount config
               \<and> (\<forall>f\<in>set (frequencies q). inSomeBand f \<and> 20 \<le> f \<and> f \<le> 20000)"
    using inSomeBand_audible by blast
  with cfg r l g(2) show "\<exists>qs config. DIFFICULTY difficulty = Some config
        \<and> generateQuestions rnd difficulty n = Inr qs
        \<and> length qs = n
        \<and> (\<forall>q\<in>set qs. length (frequencies q) = freqCount config
               \<and> (\<forall>f\<in>set (frequencies q). inSomeBand f \<and> 20 \<le> f \<and> f \<le> 20000))"
    by auto
qed

theorem generateQuestions_batch_witness:
  "generateQuestions (\<lambda>k. if k = 2 then 1 / 2 else 0) ''medium'' 1
     = Inr [\<lparr> frequencies = [500, 20], questionStereo = True, waveform = ''sine'',
               duration = 10, questionEqualLoudness = ''off'' \<rparr>]
   \<and> inSomeBand 500 \<and> inSomeBand 20"
proof -
  let ?rnd = "\<lambda>k :: nat. if k = 2 then 1 / 2 else 0 :: real"
  have c: "randomContract ?rnd" by (simp add: randomContract_def)
  have m: "''medium'' \<in> {''easy'', ''medium'', ''hard''}" by simp
  from generateQuestions_batch [of ?rnd "''medium''" 1] c m
  obtain qs where qs: "generateQuestions ?rnd ''medium'' 1 = Inr qs"
    "\<forall>q\<in>set qs. \<forall>f\<in>set (frequencies q). inSomeBand f" by blast
  from qs(1) generateQuestions_medium_example
  have "qs = [\<lparr> frequencies = [500, 20], questionStereo = True, waveform = ''sine'',
               duration = 10, questionEqualLoudness = ''off'' \<rparr>]" by simp
  with qs(2) have "inSomeBand 500 \<and> inSomeBand 20" by simp
  with generateQuestions_medium_example show ?thesis by blast
qed

text \<open>
  C3. Generation raises no error, and the batch is a rearrangement of the questions in
  the order they were generated. For every generated question none of whose retry
  loops is exhausted, the frequencies are distinct, every two of them have ratio
  max/min at least the profile's \<open>minFreqGap\<close>, and none of them is a frequency of an
  earlier question of the batch. A retry loop whose 100 candidates all fail the test
  returns its 100th candidate, after exactly 100 draws; any other run of the loop
  returns a candidate that passes the test.
\<close>

theorem generation_gap_and_freshness:
  "(randomContract rnd \<and> DIFFICULTY difficulty = Some config \<longrightarrow>
      (\<exists>gs used pos qs.
          generateLoop rnd config n [] {} 0 = Inr (gs, used, pos)
        \<and> generateQuestions rnd difficulty n = Inr qs
        \<and> mset qs = mset gs \<and> length gs = n
        \<and> length (exhaustionFlags rnd config n {} 0) = n
        \<and> (\<forall>i<n. \<not> exhaustionFlags rnd config n {} 0 ! i \<longrightarrow>
               distinct (frequencies (gs ! i)) \<and> pairwiseGap config (frequencies (gs ! i))
               \<and> (\<forall>j<i. set (frequencies (gs ! j)) \<inter> set (frequencies (gs ! i)) = {}))))
   \<and> (retriesExhausted rnd frange config fs used0 p \<longrightarrow>
        retryLoop rnd frange config fs used0 0 p
          = (randomLogFreq (rangeMin frange) (rangeMax frange) (rnd (p + 99)), p + 100))
   \<and> (\<not> retriesExhausted rnd frange config fs used0 p \<longrightarrow>
        accepted config fs used0 (fst (retryLoop rnd frange config fs used0 0 p)))"
proof (intro conjI impI)
  assume h: "randomContract rnd \<and> DIFFICULTY difficulty = Some config"
  then have c: "randomContract rnd" and cfg: "DIFFICULTY difficulty = Some config" by simp_all
  from generateLoop_shape [OF c, of config n "[]" "{}" 0] obtain gs used pos
    where g: "generateLoop rnd config n [] {} 0 = Inr ([] @ gs, used, pos)" "length gs = n"
    by auto
  from generateLoop_fresh [OF c g(1)]
  have len: "length (exhaustionFlags rnd config n {} 0) = n"
    and fresh: "\<And>i. i < n \<Longrightarrow> \<not> exhaustionFlags rnd config n {} 0 ! i \<Longrightarrow>
                distinct (frequencies (gs ! i)) \<and> pairwiseGap config (frequencies (gs ! i))
                \<and> (\<forall>q\<in>set (take i gs).
                       set (frequencies q) \<inter> set (frequencies (gs ! i)) = {})"
    by simp_all
  have prior: "\<forall>j<i. set (frequencies (gs ! j)) \<inter> set (frequencies (gs ! i)) = {}"
    if "i < n" "\<forall>q\<in>set (take i gs). set (frequencies q) \<inter> set (frequencies (gs ! i)) = {}"
    for i
  proof (intro allI impI)
    fix j assume "j < i"
    with that(1) g(2) have "gs ! j \<in> set (take i gs)"
      by (metis in_set_conv_nth length_take min_less_iff_conj nth_take order_less_trans)
    with that(2) show "set (frequencies (gs ! j)) \<inter> set (frequencies (gs ! i)) = {}" by blast
  qed
  let ?qs = "fst (shuffle rnd gs pos)"
  have m: "mset ?qs = mset gs" using c by (rule shuffle_mset)
  have r: "generateQuestions rnd difficulty n = Inr ?qs"
    using cfg g(1) by (simp add: generateQuestions_def)
  have "\<forall>i<n. \<not> exhaustionFlags rnd config n {} 0 ! i \<longrightarrow>
               distinct (frequencies (gs ! i)) \<and> pairwiseGap config (frequencies (gs ! i))
               \<and> (\<forall>j<i. set (frequencies (gs ! j)) \<inter> set (frequencies (gs ! i)) = {})"
    using fresh prior by blast
  with g m r len show "\<exists>gs used pos qs.
          generateLoop rnd config n [] {} 0 = Inr (gs, used, pos)
        \<and> generateQuestions rnd difficulty n = Inr qs
        \<and> mset qs = mset gs \<and> length gs = n
        \<and> length (exhaustionFlags rnd config n {} 0) = n
        \<and> (\<forall>i<n. \<not> exhaustionFlags rnd config n {} 0 ! i \<longrightarrow>
               distinct (frequencies (gs ! i)) \<and> pairwiseGap config (frequencies (gs ! i))
               \<and> (\<forall>j<i. set (frequencies (gs ! j)) \<inter> set (frequencies (gs ! i)) = {}))"
    by (intro exI [of _ gs] exI [of _ used] exI [of _ pos] exI [of _ ?qs]) simp
next
  assume "retriesExhausted rnd frange config fs used0 p"
  then have "\<forall>k<100 - 0. \<not> accepted config fs used0
        (randomLogFreq (rangeMin frange) (rangeMax frange) (rnd (p + k)))"
    by (simp add: retriesExhausted_def)
  from retryLoop_exhausted [OF _ this]
  show "retryLoop rnd frange config fs used0 0 p
          = (randomLogFreq (rangeMin frange) (rangeMax frange) (rnd (p + 99)), p + 100)"
    by simp
next
  assume "\<not> retriesExhausted rnd frange config fs used0 p"
  then have "\<exists>k<100 - 0. accepted config fs used0
        (randomLogFreq (rangeMin frange) (rangeMax frange) (rnd (p + k)))"
    by (simp add: retriesExhausted_def)
  from retryLoop_accepted [OF _ this]
  show "accepted config fs used0 (fst (retryLoop rnd frange config fs used0 0 p))"
    by simp
qed

theorem generation_gap_and_freshness_witness:
  "(\<exists>q. generateQuestions (\<lambda>k. if k = 2 then 1 / 2 else 0) ''medium'' 1 = Inr [q]
        \<and> frequencies q = [500, 20]
        \<and> distinct (frequencies q)
        \<and> pairwiseGap \<lparr> freqCount = 2, minFreqGap = 1.25, equalLoudness = ''off'',
                          stereo = True \<rparr> (frequencies q))
   \<and> retryLoop (\<lambda>k. 0) \<lparr> rangeMin = 20, rangeMax = 80, rangeCount = 1 \<rparr>
         \<lparr> freqCount = 1, minFreqGap = 1.5, equalLoudness = ''off'', stereo = False \<rparr>
         [] {Some 20} 0 0 = (20, 100)
   \<and> accepted \<lparr> freqCount = 2, minFreqGap = 1.25, equalLoudness = ''off'', stereo = True \<rparr>
         [] {} 20"
proof -
  let ?rnd = "\<lambda>k :: nat. if k = 2 then 1 / 2 else 0 :: real"
  let ?cfg = "\<lparr> freqCount = 2, minFreqGap = 1.25, equalLoudness = ''off'', stereo = True \<rparr>"
  let ?q = "\<lparr> frequencies = [500, 20], questionStereo = True, waveform = ''sine'',
               duration = 10, questionEqualLoudness = ''off'' \<rparr>"
  have c: "randomContract ?rnd" by (simp add: randomContract_def)
  have d: "DIFFICULTY ''medium'' = Some ?cfg" by (simp add: DIFFICULTY_def)
  have r0: "retryLoop ?rnd \<lparr> rangeMin = 20, rangeMax = 80, rangeCount = 1 \<rparr> ?cfg [] {} 0 1
              = (20, 2)"
    by (simp add: retryLoop.simps randomLogFreq_zero accepted_def tooClose_def Let_def)
  have fl: "exhaustionFlags ?rnd ?cfg 1 {} 0 = [False]"
    by (simp add: generateQuestion_def questionExhausted_def pickRange_half pickRange_zero
        retryLoop.simps randomLogFreq_zero accepted_def tooClose_def Let_def numeral_2_eq_2
        retriesExhausted_first)
  from generation_gap_and_freshness [of ?rnd "''medium''" ?cfg 1] c d
  obtain gs qs where g: "generateQuestions ?rnd ''medium'' 1 = Inr qs" "mset qs = mset gs"
    "\<forall>i<1. \<not> exhaustionFlags ?rnd ?cfg 1 {} 0 ! i \<longrightarrow>
               distinct (frequencies (gs ! i)) \<and> pairwiseGap ?cfg (frequencies (gs ! i))"
    by blast
  from g(1) generateQuestions_medium_example have "qs = [?q]" by simp
  with g(2) have gs: "gs = [?q]" by simp
  have "(0 :: nat) < 1" by simp
  with g(3) have "\<not> exhaustionFlags ?rnd ?cfg 1 {} 0 ! 0 \<longrightarrow>
               distinct (frequencies (gs ! 0)) \<and> pairwiseGap ?cfg (frequencies (gs ! 0))"
    by blast
  with fl gs have "distinct (frequencies ?q) \<and> pairwiseGap ?cfg (frequencies ?q)"
    by (simp del: One_nat_def)
  with generateQuestions_medium_example
  have A: "\<exists>q. generateQuestions ?rnd ''medium'' 1 = Inr [q]
        \<and> frequencies q = [500, 20]
        \<and> distinct (frequencies q) \<and> pairwiseGap ?cfg (frequencies q)"
    by (intro exI [of _ ?q]) simp
  let ?easy = "\<lparr> freqCount = 1, minFreqGap = 1.5, equalLoudness = ''off'', stereo = False \<rparr>"
  let ?fr = "\<lparr> rangeMin = 20, rangeMax = 80, rangeCount = 1 \<rparr>"
  have e: "retriesExhausted (\<lambda>k. 0) ?fr ?easy [] {Some 20} 0"
    by (simp add: retriesExhausted_def accepted_def randomLogFreq_zero)
  from generation_gap_and_freshness [of "\<lambda>k. 0" _ ?easy _ ?fr "[]" "{Some 20}" 0] e
  have B: "retryLoop (\<lambda>k. 0) ?fr ?easy [] {Some 20} 0 0 = (20, 100)"
    by (simp add: randomLogFreq_zero)
  have "\<not> retriesExhausted ?rnd ?fr ?cfg [] {} 1"
    by (rule retriesExhausted_first) (simp add: accepted_def tooClose_def)
  with generation_gap_and_freshness [of ?rnd _ ?cfg _ ?fr "[]" "{}" 1] r0
  have C: "accepted ?cfg [] {} 20" by simp
  from A B C show ?thesis by blast
qed

end
